theory Spec2Isabelle
  imports Main "HOL-Library.AList"
begin

text \<open>
  A shallow embedding of \<open>src/portforward.js\<close> of \<open>kubectlpf\<close>, the supervisor that keeps
  \<open>kubectl port-forward\<close> tunnels alive: the matcher that reads the table of
  \<open>kubectl get pods\<close>, the callbacks of the health check and of the reconnection, the
  classification of the tunnels' output, and the merge of the two configuration files.
  The second entry point of the repository has the same functions; where it differs in
  what is proved here, the text says so.
\<close>

section \<open>Strings and the regular expressions of \<open>portforward.js\<close>\<close>

text \<open>
  JavaScript strings are modelled as \<^typ>\<open>string\<close> (ASCII text). The line separator
  of \<open>split('\n')\<close> and \<open>join('\n')\<close> is the character with code 10.
\<close>

definition nl :: string where
  "nl = [CHR 0x0A]"

fun split_lines :: "string \<Rightarrow> string list" where
  "split_lines [] = [[]]"
| "split_lines (c # cs) =
     (if c = CHR 0x0A then [] # split_lines cs
      else (case split_lines cs of
              [] \<Rightarrow> [[c]]
            | l # ls \<Rightarrow> (c # l) # ls))"

fun join_lines :: "string list \<Rightarrow> string" where
  "join_lines [] = []"
| "join_lines [l] = l"
| "join_lines (l # m # ls) = l @ CHR 0x0A # join_lines (m # ls)"

fun startsWith :: "string \<Rightarrow> string \<Rightarrow> bool" where
  "startsWith s [] = True"
| "startsWith [] (p # ps) = False"
| "startsWith (c # cs) (p # ps) = (c = p \<and> startsWith cs ps)"

text \<open>\<open>str.match(/literal/)\<close> with a literal pattern is a substring test.\<close>

fun str_includes :: "string \<Rightarrow> string \<Rightarrow> bool" where
  "str_includes [] p = (p = [])"
| "str_includes (c # cs) p = (startsWith (c # cs) p \<or> str_includes cs p)"

text \<open>The character classes used by the patterns.\<close>

definition digit :: "char \<Rightarrow> bool" where
  "digit c = (c \<in> set ''0123456789'')"

definition lower :: "char \<Rightarrow> bool" where
  "lower c = (c \<in> set ''abcdefghijklmnopqrstuvwxyz'')"

definition upper :: "char \<Rightarrow> bool" where
  "upper c = (c \<in> set ''ABCDEFGHIJKLMNOPQRSTUVWXYZ'')"

definition idchar :: "char \<Rightarrow> bool" where
  \<comment> \<open>\<open>[-\da-z]\<close>\<close>
  "idchar c = (c = CHR ''-'' \<or> digit c \<or> lower c)"

definition alpha :: "char \<Rightarrow> bool" where
  \<comment> \<open>\<open>[a-zA-Z]\<close>\<close>
  "alpha c = (lower c \<or> upper c)"

definition space :: "char \<Rightarrow> bool" where
  \<comment> \<open>\<open>[\s]\<close>, on ASCII: space, tab, line feed, vertical tab, form feed, carriage return\<close>
  "space c = (c \<in> set [CHR '' '', CHR 0x09, CHR 0x0A, CHR 0x0B, CHR 0x0C, CHR 0x0D])"

definition dot :: "char \<Rightarrow> bool" where
  \<comment> \<open>\<open>.\<close> matches every character but a line terminator\<close>
  "dot c = (c \<noteq> CHR 0x0A \<and> c \<noteq> CHR 0x0D)"

text \<open>
  Every pattern of the program is a flat sequence of single characters and greedy starred
  classes. \<open>rx_match\<close> is the backtracking matcher anchored at the head of the subject:
  a star first tries to take one more character and gives it back when the rest of the
  pattern fails. It returns the text consumed by each item, from which the capture groups
  are read. \<open>rx_exec\<close> is \<open>RegExp.prototype.exec\<close> on a fresh expression: the leftmost
  start position that matches.
\<close>

datatype item = One "char \<Rightarrow> bool" | Star "char \<Rightarrow> bool"

fun rx_match :: "item list \<Rightarrow> string \<Rightarrow> string list option" where
  "rx_match [] s = Some []"
| "rx_match (One p # r) [] = None"
| "rx_match (One p # r) (c # cs) =
     (if p c then map_option ((#) [c]) (rx_match r cs) else None)"
| "rx_match (Star p # r) [] = map_option ((#) []) (rx_match r [])"
| "rx_match (Star p # r) (c # cs) =
     (if p c then
        (case rx_match (Star p # r) cs of
           Some (seg # segs) \<Rightarrow> Some ((c # seg) # segs)
         | _ \<Rightarrow> map_option ((#) []) (rx_match r (c # cs)))
      else map_option ((#) []) (rx_match r (c # cs)))"

fun rx_exec :: "item list \<Rightarrow> string \<Rightarrow> string list option" where
  "rx_exec r [] = rx_match r []"
| "rx_exec r (c # cs) =
     (case rx_match r (c # cs) of
        Some segs \<Rightarrow> Some segs
      | None \<Rightarrow> rx_exec r cs)"

definition lit :: "string \<Rightarrow> item list" where
  "lit w = map (\<lambda>c. One (\<lambda>d. d = c)) w"

section \<open>Workload identity matcher: \<open>getPodId\<close>\<close>

text \<open>
  The pod name is spliced into the pattern source; it is modelled as literal text, which
  is what the splice means for names made of letters, digits and hyphens. A name with a
  character that the pattern language reads as an operator (\<open>.\<close>, \<open>+\<close>, \<open>(\<close>, ...) is
  outside the model.
  Colouring by \<open>chalk\<close> is left out of the messages.
\<close>

datatype error =
    PodNotRunning string string
  | PodNotFound string "string option" string

fun message :: "error \<Rightarrow> string" where
  "message (PodNotRunning podName st) =
     ''Pod '' @ podName @ '' is in '' @ st @ '' state, needs to be Running''"
| "message (PodNotFound podName ns joined) =
     ''Could not find pod '' @ podName @ '', available pods''
       @ (case ns of None \<Rightarrow> [] | Some n \<Rightarrow> '' (namespace: '' @ n @ '')'')
       @ '': '' @ [CHR 0x0A] @ joined"

definition filterPods :: "string \<Rightarrow> string \<Rightarrow> string list" where
  "filterPods rawPods podName = filter (\<lambda>l. startsWith l podName) (split_lines rawPods)"

definition running_rx :: "string \<Rightarrow> item list" where
  \<comment> \<open>\<open>'(' + podName + '[-\\da-z]*).*(Running)'\<close>\<close>
  "running_rx podName = lit podName @ [Star idchar] @ [Star dot] @ lit ''Running''"

definition error_rx :: "string \<Rightarrow> item list" where
  \<comment> \<open>\<open>'(' + podName + '[-\\da-z]*)[\\s]*[\\d]\\/[\\d][\\s]*([a-zA-Z]*)[\\s]'\<close>\<close>
  "error_rx podName =
     lit podName @ [Star idchar] @ [Star space, One digit, One (\<lambda>d. d = CHR ''/''),
       One digit, Star space] @ [Star alpha] @ [One space]"

definition group1 :: "string \<Rightarrow> string list \<Rightarrow> string" where
  "group1 podName segs = concat (take (length podName + 1) segs)"

definition error_group2 :: "string \<Rightarrow> string list \<Rightarrow> string" where
  "error_group2 podName segs = segs ! (length podName + 6)"

definition getPodId :: "string option \<Rightarrow> string \<Rightarrow> string \<Rightarrow> bool \<Rightarrow> error + string option" where
  "getPodId namespace rawPods podName silent =
     (let joined = join_lines (filterPods rawPods podName) in
      case rx_exec (running_rx podName) joined of
        Some segs \<Rightarrow> Inr (Some (group1 podName segs))
      | None \<Rightarrow>
          (case rx_exec (error_rx podName) joined of
             Some esegs \<Rightarrow>
               if silent then Inr None
               else Inl (PodNotRunning podName (error_group2 podName esegs))
           | None \<Rightarrow>
               if silent then Inr None
               else Inl (PodNotFound podName namespace joined)))"

section \<open>Sessions, child processes and the event loop\<close>

text \<open>
  The program is a set of callbacks run one at a time by the event loop of Node.js. Its
  state is the module-level variables, the pod objects (shared by reference between the
  array \<open>runningPods\<close> and the closures, hence a heap of objects addressed by \<open>ref\<close>),
  the child processes it has spawned, the pending timers and the \<open>exec\<close> calls whose
  callback has not run yet. Logging is left out, and so is time: a pending timer carries
  its delay and may fire at any moment.

  The boolean fields of a pod are \<open>undefined\<close> until first assigned, which is falsy and
  modelled as \<open>False\<close>. The fields \<open>id\<close>, \<open>from\<close>, \<open>to\<close> and \<open>namespace\<close> of a pod
  are \<open>pod_id\<close>, \<open>pod_from\<close>, \<open>pod_to\<close> and \<open>pod_namespace\<close>.
\<close>

type_synonym ref = nat
type_synonym pid = nat

record pod =
  name :: string
  pod_from :: string
  pod_to :: string
  pod_namespace :: "string option"
  pod_id :: string
  childProcess :: "pid option"
  initialized :: bool
  restartingState :: bool
  excluded :: bool
  initInterval :: "nat option"

text \<open>
  A child process is \<open>Live\<close> until it is sent a signal by \<open>kill()\<close> (\<open>Signalled\<close>) or ends;
  its \<open>'close'\<close> event (\<open>Closed\<close>) comes after the process has ended and its output
  streams are closed. \<open>kill()\<close> on a process that is not live does nothing.
\<close>

datatype pstatus = Live | Signalled | Closed

record proc =
  owner :: ref
  argv :: "string list"
  status :: pstatus

text \<open>
  The continuation of a pending \<open>exec\<close> of \<open>getPods\<close>: the callback of \<open>healthCheck\<close>,
  the callback of \<open>tryReinitPod\<close> for a pod (with the value of that closure's variable
  \<open>attempt\<close>), or the callback of \<open>formalInit\<close>. A pending timer runs \<open>tryReinitPod\<close> of a
  closure or \<open>formalInit\<close>.
\<close>

datatype cont = HealthCb | ReinitCb ref nat | InitCb

datatype task = Retry ref nat | Init

record state =
  pods :: "ref \<Rightarrow> pod"
  runningPods :: "ref list"
  kubeConfig :: "string option"
  namespace :: "string option"
  restartAttempt :: nat
  healthInterval :: nat
  procs :: "pid \<Rightarrow> proc"
  next_pid :: pid
  timers :: "(nat \<times> nat \<times> task) list"
  next_timer :: nat
  inflight :: "(nat \<times> cont) list"
  next_req :: nat
  interval :: "nat option"
  exited :: "int option"

definition maxAttempt :: nat where
  "maxAttempt = 20"

definition attemptDuration :: nat where
  "attemptDuration = 5000"

definition update_pod :: "ref \<Rightarrow> (pod \<Rightarrow> pod) \<Rightarrow> state \<Rightarrow> state" where
  "update_pod r f s = s\<lparr>pods := (pods s)(r := f (pods s r))\<rparr>"

definition kill :: "pid \<Rightarrow> state \<Rightarrow> state" where
  "kill c s =
     (if status (procs s c) = Live
      then s\<lparr>procs := (procs s)(c := (procs s c)\<lparr>status := Signalled\<rparr>)\<rparr>
      else s)"

text \<open>
  \<open>process.exit(code)\<close> runs the \<open>'exit'\<close> handler, which is \<open>cleanup\<close>, and ends the run;
  nothing runs afterwards. \<open>process.exit()\<close> without a code exits with
  \<open>process.exitCode\<close>, which the program never sets, that is with 0. An exception that
  no handler catches ends the run with code 1, after the \<open>'exit'\<close> handler.
  In \<open>cleanup\<close> the \<open>TypeError\<close> of a pod without child process is caught and counted.
\<close>

fun kill_all :: "ref list \<Rightarrow> state \<Rightarrow> state" where
  "kill_all [] s = s"
| "kill_all (r # rs) s =
     kill_all rs (case childProcess (pods s r) of None \<Rightarrow> s | Some c \<Rightarrow> kill c s)"

definition cleanup :: "state \<Rightarrow> state" where
  "cleanup s = kill_all (runningPods s) s"

definition process_exit :: "int option \<Rightarrow> state \<Rightarrow> state" where
  "process_exit code s =
     (cleanup s)\<lparr>exited := Some (case code of None \<Rightarrow> 0 | Some n \<Rightarrow> n)\<rparr>"

definition uncaught :: "state \<Rightarrow> state" where
  "uncaught s = process_exit (Some 1) s"

definition kill_child :: "ref \<Rightarrow> state \<Rightarrow> state" where
  \<comment> \<open>\<open>pod.childProcess.kill()\<close>\<close>
  "kill_child r s =
     (case childProcess (pods s r) of
        None \<Rightarrow> uncaught s
      | Some c \<Rightarrow> kill c s)"

text \<open>\<open>forEach\<close> over pod references; an exit inside the body ends the loop.\<close>

fun forEach :: "(ref \<Rightarrow> state \<Rightarrow> state) \<Rightarrow> ref list \<Rightarrow> state \<Rightarrow> state" where
  "forEach f [] s = s"
| "forEach f (r # rs) s =
     (let t = f r s in if exited t \<noteq> None then t else forEach f rs t)"

definition setTimeout :: "task \<Rightarrow> nat \<Rightarrow> state \<Rightarrow> state" where
  \<comment> \<open>the handle returned is \<open>next_timer\<close> of the state before\<close>
  "setTimeout k d s =
     s\<lparr>timers := timers s @ [(next_timer s, d, k)], next_timer := Suc (next_timer s)\<rparr>"

definition clearTimeout :: "nat \<Rightarrow> state \<Rightarrow> state" where
  "clearTimeout h s = s\<lparr>timers := filter (\<lambda>e. fst e \<noteq> h) (timers s)\<rparr>"

definition exec_getPods :: "cont \<Rightarrow> state \<Rightarrow> state" where
  \<comment> \<open>\<open>getPods(callback)\<close> up to its call of \<open>exec\<close>\<close>
  "exec_getPods k s =
     s\<lparr>inflight := inflight s @ [(next_req s, k)], next_req := Suc (next_req s)\<rparr>"

subsection \<open>\<open>portForwardPod\<close>\<close>

definition forward_args :: "state \<Rightarrow> pod \<Rightarrow> string list" where
  "forward_args s p =
     [''port-forward'', pod_id p]
     @ [if pod_to p \<noteq> [] then pod_from p @ '':'' @ pod_to p else pod_from p]
     @ (case kubeConfig s of None \<Rightarrow> [] | Some k \<Rightarrow> [''--kubeconfig'', k])
     @ (case pod_namespace p of None \<Rightarrow> [] | Some n \<Rightarrow> [''--namespace'', n])"

definition portForwardPod :: "ref \<Rightarrow> state \<Rightarrow> state" where
  "portForwardPod r s =
     (let child = next_pid s;
          s1 = s\<lparr>procs := (procs s)(child :=
                    \<lparr>owner = r, argv = forward_args s (pods s r), status = Live\<rparr>),
                 next_pid := Suc child\<rparr>
      in update_pod r (\<lambda>p. p\<lparr>childProcess := Some child\<rparr>) s1)"

subsection \<open>Cluster query client: the callback of \<open>exec\<close> in \<open>getPods\<close>\<close>

datatype exec_result = ExecOk string | ExecError string

text \<open>What \<open>getPods\<close> passes to its callback: \<open>callback(true)\<close> or \<open>callback(false, stdout, true)\<close>.\<close>

datatype cb_args = CbError | CbOk string

definition is_network_error :: "string \<Rightarrow> bool" where
  "is_network_error stderr =
     (str_includes stderr ''network is unreachable'' \<or> str_includes stderr ''handshake timeout''
      \<or> str_includes stderr ''network is down'' \<or> str_includes stderr ''i/o timeout'')"

definition network_error_pod :: "ref \<Rightarrow> state \<Rightarrow> state" where
  "network_error_pod r s =
     (if initialized (pods s r)
      then kill_child r (update_pod r (\<lambda>p. p\<lparr>initialized := False\<rparr>) s)
      else s)"

definition getPods_done :: "(cb_args \<Rightarrow> state \<Rightarrow> state) \<Rightarrow> exec_result \<Rightarrow> state \<Rightarrow> state" where
  "getPods_done callback res s =
     (case res of
        ExecError stderr \<Rightarrow>
          if is_network_error stderr then
            (let t = forEach network_error_pod (runningPods s)
                       (s\<lparr>restartAttempt := Suc (restartAttempt s)\<rparr>)
             in if exited t \<noteq> None then t else callback CbError t)
          else uncaught s
      | ExecOk stdout \<Rightarrow>
          callback (CbOk stdout) (if 0 < restartAttempt s then s\<lparr>restartAttempt := 0\<rparr> else s))"

subsection \<open>Health check and reconnection: \<open>healthCheck\<close>, \<open>tryReinitPod\<close>\<close>

text \<open>
  The instance identifier is spliced into the pattern of the health check in the same
  way and is modelled as literal text as well: an identifier returned by \<open>getPodId\<close> is
  the name followed by hyphens, digits and lower-case letters.
\<close>

definition alive_rx :: "string \<Rightarrow> item list" where
  \<comment> \<open>\<open>'(' + pod.id + ').*(Running)'\<close>\<close>
  "alive_rx i = lit i @ [Star dot] @ lit ''Running''"

definition tryReinitPod :: "ref \<Rightarrow> nat \<Rightarrow> state \<Rightarrow> state" where
  "tryReinitPod r attempt s = exec_getPods (ReinitCb r attempt) s"

definition health_pod :: "string \<Rightarrow> ref \<Rightarrow> state \<Rightarrow> state" where
  "health_pod rawPods r s =
     (if restartingState (pods s r) then s
      else if rx_exec (alive_rx (pod_id (pods s r))) rawPods = None \<or> \<not> initialized (pods s r) then
        (let s1 = kill_child r (update_pod r (\<lambda>p. p\<lparr>restartingState := True\<rparr>) s) in
         if exited s1 \<noteq> None then s1
         else
           (let s2 = update_pod r (\<lambda>p. p\<lparr>initialized := False\<rparr>) s1;
                s3 = (case initInterval (pods s2 r) of
                        None \<Rightarrow> s2
                      | Some h \<Rightarrow> clearTimeout h s2)
            in tryReinitPod r 0 s3))
      else s)"

definition healthCheck_cb :: "cb_args \<Rightarrow> state \<Rightarrow> state" where
  "healthCheck_cb a s =
     (case a of
        CbError \<Rightarrow> s
      | CbOk rawPods \<Rightarrow> forEach (health_pod rawPods) (runningPods s) s)"

definition healthCheck :: "state \<Rightarrow> state" where
  "healthCheck s = exec_getPods HealthCb s"

definition reinit_not_found :: "ref \<Rightarrow> nat \<Rightarrow> state \<Rightarrow> state" where
  "reinit_not_found r attempt s =
     (if maxAttempt \<le> attempt then process_exit None s
      else update_pod r (\<lambda>p. p\<lparr>initInterval := Some (next_timer s)\<rparr>)
             (setTimeout (Retry r (Suc attempt)) attemptDuration s))"

definition tryReinitPod_cb :: "ref \<Rightarrow> nat \<Rightarrow> cb_args \<Rightarrow> state \<Rightarrow> state" where
  "tryReinitPod_cb r attempt a s =
     (case a of
        CbError \<Rightarrow> s
      | CbOk rawPods \<Rightarrow>
          (case getPodId (namespace s) rawPods (name (pods s r)) True of
             Inl e \<Rightarrow> uncaught s
           | Inr None \<Rightarrow> reinit_not_found r attempt s
           | Inr (Some podId) \<Rightarrow>
               if podId \<noteq> [] then portForwardPod r (update_pod r (\<lambda>p. p\<lparr>pod_id := podId\<rparr>) s)
               else reinit_not_found r attempt s))"

subsection \<open>Log classification: \<open>processKubectlLog\<close>\<close>

datatype log_class =
  ForwardingFrom | HandlingConnection | ForwardingError | AddressInUse | PermissionDenied | Other

definition classify :: "string \<Rightarrow> log_class" where
  "classify logLine =
     (if str_includes logLine ''Forwarding from'' then ForwardingFrom
      else if str_includes logLine ''Handling connection'' then HandlingConnection
      else if str_includes logLine ''an error occurred forwarding'' then ForwardingError
      else if str_includes logLine ''address already in use''
              \<or> str_includes logLine ''Unable to listen on any of the requested ports''
           then AddressInUse
      else if str_includes logLine ''bind: permission denied'' then PermissionDenied
      else Other)"

definition processKubectlLog :: "string \<Rightarrow> ref \<Rightarrow> pid \<Rightarrow> state \<Rightarrow> state" where
  "processKubectlLog logLine r child s =
     (case classify logLine of
        ForwardingFrom \<Rightarrow>
          if \<not> initialized (pods s r) then update_pod r (\<lambda>p. p\<lparr>initialized := True\<rparr>) s else s
      | HandlingConnection \<Rightarrow> s
      | ForwardingError \<Rightarrow> healthCheck s
      | AddressInUse \<Rightarrow>
          if \<not> excluded (pods s r) then
            (let s1 = kill child (update_pod r (\<lambda>p. p\<lparr>excluded := True\<rparr>) s);
                 s2 = s1\<lparr>runningPods := removeAll r (runningPods s1)\<rparr>
             in if runningPods s2 = [] then process_exit (Some 0) s2 else s2)
          else s
      | PermissionDenied \<Rightarrow> process_exit (Some 0) s
      | Other \<Rightarrow> if \<not> initialized (pods s r) then process_exit None s else s)"

definition close_handler :: "ref \<Rightarrow> state \<Rightarrow> state" where
  \<comment> \<open>\<open>child.on('close', ...)\<close> of \<open>portForwardPod\<close>\<close>
  "close_handler r s = update_pod r (\<lambda>p. p\<lparr>restartingState := False, initialized := False\<rparr>) s"

subsection \<open>Start-up: \<open>formalInit\<close>\<close>

text \<open>
  The first loop of \<open>formalInit\<close> resolves the instance of every pod; an error thrown by
  \<open>getPodId\<close> is caught by the \<open>try\<close> around both loops, which then are abandoned (the
  identifiers assigned so far stay). Non-silent \<open>getPodId\<close> returns a string or throws.
  After such an error nothing is pending: no tunnel has been spawned, no timer and no
  interval is set and no query is under way, so the process ends by itself, which is an
  exit with code 0 after the \<open>'exit'\<close> handler.
\<close>

fun resolve_ids :: "string \<Rightarrow> ref list \<Rightarrow> state \<Rightarrow> error option \<times> state" where
  "resolve_ids rawPods [] s = (None, s)"
| "resolve_ids rawPods (r # rs) s =
     (case getPodId (namespace s) rawPods (name (pods s r)) False of
        Inl e \<Rightarrow> (Some e, s)
      | Inr None \<Rightarrow> resolve_ids rawPods rs s
      | Inr (Some podId) \<Rightarrow> resolve_ids rawPods rs (update_pod r (\<lambda>p. p\<lparr>pod_id := podId\<rparr>) s))"

definition formalInit_cb :: "cb_args \<Rightarrow> state \<Rightarrow> state" where
  "formalInit_cb a s =
     (case a of
        CbError \<Rightarrow> setTimeout Init (healthInterval s) s
      | CbOk rawPods \<Rightarrow>
          (case resolve_ids rawPods (runningPods s) s of
             (Some e, t) \<Rightarrow> process_exit None t
           | (None, t) \<Rightarrow>
               (let u = forEach portForwardPod (runningPods t) t
                in u\<lparr>interval := Some (healthInterval u)\<rparr>)))"

subsection \<open>The event loop\<close>

datatype signal = SIGHUP | SIGINT | SIGTERM

datatype event =
    Interval
  | ExecDone nat exec_result
  | TimerFire nat
  | Data pid string
  | Close pid
  | Signal signal

definition callback_of :: "cont \<Rightarrow> cb_args \<Rightarrow> state \<Rightarrow> state" where
  "callback_of k =
     (case k of
        HealthCb \<Rightarrow> healthCheck_cb
      | ReinitCb r attempt \<Rightarrow> tryReinitPod_cb r attempt
      | InitCb \<Rightarrow> formalInit_cb)"

definition run_task :: "task \<Rightarrow> state \<Rightarrow> state" where
  "run_task k s =
     (case k of
        Retry r attempt \<Rightarrow> tryReinitPod r attempt s
      | Init \<Rightarrow> exec_getPods InitCb s)"

definition signal_code :: "signal \<Rightarrow> int" where
  "signal_code g = (case g of SIGHUP \<Rightarrow> 1 | SIGINT \<Rightarrow> 2 | SIGTERM \<Rightarrow> 15)"

text \<open>
  One callback of the event loop. \<open>Interval\<close> is a firing of \<open>setInterval(healthCheck, ...)\<close>;
  \<open>ExecDone q res\<close> is the completion of the pending \<open>exec\<close> number \<open>q\<close>; \<open>TimerFire h\<close> is
  the firing of the pending timer \<open>h\<close>; \<open>Data c line\<close> is output of child \<open>c\<close>, which can
  arrive until its \<open>'close'\<close> event; \<open>Close c\<close> is that event. After an exit nothing runs.
\<close>

definition step :: "event \<Rightarrow> state \<Rightarrow> state" where
  "step e s =
     (if exited s \<noteq> None then s
      else case e of
        Interval \<Rightarrow> (case interval s of None \<Rightarrow> s | Some d \<Rightarrow> healthCheck s)
      | ExecDone q res \<Rightarrow>
          (case map_of (inflight s) q of
             None \<Rightarrow> s
           | Some k \<Rightarrow>
               getPods_done (callback_of k) res
                 (s\<lparr>inflight := filter (\<lambda>e. fst e \<noteq> q) (inflight s)\<rparr>))
      | TimerFire h \<Rightarrow>
          (case map_of (timers s) h of
             None \<Rightarrow> s
           | Some (d, k) \<Rightarrow> run_task k (clearTimeout h s))
      | Data c logLine \<Rightarrow>
          if c < next_pid s \<and> status (procs s c) \<noteq> Closed
          then processKubectlLog logLine (owner (procs s c)) c s
          else s
      | Close c \<Rightarrow>
          if c < next_pid s \<and> status (procs s c) \<noteq> Closed
          then close_handler (owner (procs s c))
                 (s\<lparr>procs := (procs s)(c := (procs s c)\<lparr>status := Closed\<rparr>)\<rparr>)
          else s
      | Signal g \<Rightarrow> process_exit (Some (signal_code g)) s)"

fun run :: "event list \<Rightarrow> state \<Rightarrow> state" where
  "run [] s = s"
| "run (e # es) s = run es (step e s)"

text \<open>
  The state in which the top-level code leaves the program: the pod objects built by
  \<open>getPodMeta\<close> are in \<open>runningPods\<close>, and \<open>formalInit()\<close> has called \<open>getPods\<close>.
\<close>

definition new_pod :: "string \<Rightarrow> string \<Rightarrow> string \<Rightarrow> string option \<Rightarrow> pod" where
  "new_pod n f t ns =
     \<lparr>name = n, pod_from = f, pod_to = t, pod_namespace = ns, pod_id = ''undefined'',
      childProcess = None, initialized = False, restartingState = False, excluded = False,
      initInterval = None\<rparr>"

definition start :: "string option \<Rightarrow> string option \<Rightarrow> nat \<Rightarrow> pod list \<Rightarrow> state" where
  "start kc ns hi ps =
     \<lparr>pods = (\<lambda>r. if r < length ps then ps ! r else new_pod [] [] [] None),
      runningPods = [0..<length ps],
      kubeConfig = kc, namespace = ns, restartAttempt = 0, healthInterval = hi,
      procs = (\<lambda>c. \<lparr>owner = 0, argv = [], status = Closed\<rparr>), next_pid = 0,
      timers = [], next_timer = 0,
      inflight = [(0, InitCb)], next_req = 1,
      interval = None, exited = None\<rparr>"

section \<open>Configuration merge: \<open>_.merge(systemDefinedPods, localDefinedPods)\<close>\<close>

text \<open>
  Both configuration files are parsed JSON objects that map a pod name to a port or
  to a record. \<open>_.merge\<close> of lodash walks the keys of the source; a source value that
  is a plain object is merged recursively into the destination's value for the key when
  that is an object too, and into a fresh empty object otherwise; every other source
  value is assigned. Objects are association lists from keys to values; the values are
  numbers, strings and objects.
\<close>

datatype jval = JNum int | JStr string | JObj "(string \<times> jval) list"

fun merge :: "(string \<times> jval) list \<Rightarrow> (string \<times> jval) list \<Rightarrow> (string \<times> jval) list" where
  "merge obj [] = obj"
| "merge obj ((k, JObj sfs) # src) =
     merge (AList.update k
              (JObj (merge (case map_of obj k of Some (JObj ofs) \<Rightarrow> ofs | _ \<Rightarrow> []) sfs)) obj) src"
| "merge obj ((k, JNum n) # src) = merge (AList.update k (JNum n) obj) src"
| "merge obj ((k, JStr w) # src) = merge (AList.update k (JStr w) obj) src"

text \<open>
  An object produced by \<open>JSON.parse\<close> has every key once, at every depth.
\<close>

fun wf_jval :: "jval \<Rightarrow> bool" where
  "wf_jval (JObj fs) = (distinct (map fst fs) \<and> (\<forall>e \<in> set fs. wf_jval (snd e)))"
| "wf_jval (JNum n) = True"
| "wf_jval (JStr w) = True"

section \<open>Runs of the reconnection protocol\<close>

text \<open>
  The events of the first \<open>n\<close> attempts of one reconnection protocol when nothing else
  happens in between: the first query is the pending \<open>exec\<close> number \<open>q\<close>, later queries
  get the following numbers, the retry timers get the handles \<open>h\<close>, \<open>h + 1\<close>, ..., and
  attempt number \<open>k\<close> (counted from 0) is answered with the table \<open>tbl k\<close>.
\<close>

fun attempts_from :: "nat \<Rightarrow> nat \<Rightarrow> nat \<Rightarrow> nat \<Rightarrow> (nat \<Rightarrow> string) \<Rightarrow> event list" where
  "attempts_from 0 k q h tbl = []"
| "attempts_from (Suc n) k q h tbl =
     TimerFire h # ExecDone q (ExecOk (tbl k)) # attempts_from n (Suc k) (Suc q) (Suc h) tbl"

definition attempts :: "nat \<Rightarrow> nat \<Rightarrow> nat \<Rightarrow> (nat \<Rightarrow> string) \<Rightarrow> event list" where
  "attempts n q h tbl =
     (case n of
        0 \<Rightarrow> []
      | Suc m \<Rightarrow> ExecDone q (ExecOk (tbl 0)) # attempts_from m 1 (Suc q) h tbl)"

text \<open>
  Handles of timers and numbers of queries are fresh when they are taken: every pending
  one is below the counter. This holds in every state the program reaches.
\<close>

definition fresh_ids :: "state \<Rightarrow> bool" where
  "fresh_ids s =
     ((\<forall>e \<in> set (inflight s). fst e < next_req s) \<and> (\<forall>e \<in> set (timers s). fst e < next_timer s))"

text \<open>
  \<open>retry_scheduled r a h s\<close>: the run is alive and timer \<open>h\<close>, recorded in the pod, will
  run the next attempt for pod \<open>r\<close> after \<open>attemptDuration\<close>, the counter being \<open>a\<close>.
\<close>

definition retry_scheduled :: "ref \<Rightarrow> nat \<Rightarrow> nat \<Rightarrow> state \<Rightarrow> bool" where
  "retry_scheduled r a h s =
     (exited s = None \<and> map_of (timers s) h = Some (attemptDuration, Retry r a)
      \<and> initInterval (pods s r) = Some h)"

text \<open>
  \<open>between_attempts s0 r a h q s\<close>: in a protocol for pod \<open>r\<close> that began in state \<open>s0\<close>,
  \<open>a\<close> attempts have failed, timer \<open>h\<close> will run the next one, whose query will be
  number \<open>q\<close>; nothing has been spawned.
\<close>

definition between_attempts :: "state \<Rightarrow> ref \<Rightarrow> nat \<Rightarrow> nat \<Rightarrow> nat \<Rightarrow> state \<Rightarrow> bool" where
  "between_attempts s0 r a h q s =
     (exited s = None \<and> fresh_ids s
      \<and> map_of (timers s) h = Some (attemptDuration, Retry r a)
      \<and> next_timer s = Suc h \<and> next_req s = q
      \<and> initInterval (pods s r) = Some h
      \<and> namespace s = namespace s0 \<and> name (pods s r) = name (pods s0 r)
      \<and> next_pid s = next_pid s0)"

text \<open>
  \<open>wf_state\<close>: what holds of the bookkeeping in every state the program reaches from its
  start: handles and numbers are fresh, a pod that is \<open>initialized\<close> has a child process,
  and the pod a process was spawned for has one.
\<close>

definition wf_state :: "state \<Rightarrow> bool" where
  "wf_state s =
     (fresh_ids s
      \<and> (\<forall>r. initialized (pods s r) \<longrightarrow> childProcess (pods s r) \<noteq> None)
      \<and> (\<forall>c < next_pid s. \<forall>r. owner (procs s c) = r \<longrightarrow> childProcess (pods s r) \<noteq> None))"







text \<open>
  \<open>holds q k s\<close>: the query \<open>q\<close> is pending with the continuation \<open>k\<close>, and its number has
  been issued. \<open>keeps h x s\<close>: the handle \<open>h\<close> has been issued, and the timer it stands
  for is pending as \<open>x\<close> or is not pending any more.
\<close>

definition holds :: "nat \<Rightarrow> cont \<Rightarrow> state \<Rightarrow> bool" where
  "holds q k s = (map_of (inflight s) q = Some k \<and> q < next_req s)"

definition keeps :: "nat \<Rightarrow> nat \<times> task \<Rightarrow> state \<Rightarrow> bool" where
  "keeps h x s =
     (h < next_timer s \<and> (map_of (timers s) h = Some x \<or> map_of (timers s) h = None))"


section \<open>Sessions that are left alone\<close>

text \<open>
  \<open>concerns r k\<close>: the pending query \<open>k\<close> is a reconnection attempt for pod \<open>r\<close>;
  \<open>retries r k\<close>: the pending timer task \<open>k\<close> is one. \<open>idle r s\<close>: pod \<open>r\<close> is not in
  \<open>runningPods\<close> and no reconnection attempt for it is pending.
\<close>

definition concerns :: "ref \<Rightarrow> cont \<Rightarrow> bool" where
  "concerns r k = (case k of ReinitCb r' a \<Rightarrow> r' = r | _ \<Rightarrow> False)"

definition retries :: "ref \<Rightarrow> task \<Rightarrow> bool" where
  "retries r k = (case k of Retry r' a \<Rightarrow> r' = r | Init \<Rightarrow> False)"

definition unattended :: "ref \<Rightarrow> state \<Rightarrow> bool" where
  "unattended r s =
     ((\<forall>e \<in> set (inflight s). \<not> concerns r (snd e))
      \<and> (\<forall>e \<in> set (timers s). \<not> retries r (snd (snd e))))"

definition idle :: "ref \<Rightarrow> state \<Rightarrow> bool" where
  "idle r s = (r \<notin> set (runningPods s) \<and> unattended r s)"

text \<open>
  \<open>spares r s t\<close>: from \<open>s\<close> to \<open>t\<close> nothing has been started for pod \<open>r\<close>: its
  \<open>childProcess\<close> is the same, every pending attempt for it was pending before, and no
  process spawned in between belongs to it.
\<close>

definition spares :: "ref \<Rightarrow> state \<Rightarrow> state \<Rightarrow> bool" where
  "spares r s t =
     (childProcess (pods t r) = childProcess (pods s r)
      \<and> (\<forall>e \<in> set (inflight t). concerns r (snd e) \<longrightarrow> e \<in> set (inflight s))
      \<and> (\<forall>e \<in> set (timers t). retries r (snd (snd e)) \<longrightarrow> e \<in> set (timers s))
      \<and> next_pid s \<le> next_pid t
      \<and> (\<forall>c < next_pid t. owner (procs t c) = r \<longrightarrow> c < next_pid s)
      \<and> (\<forall>c < next_pid s. owner (procs t c) = owner (procs s c)))"

section \<open>Concrete inputs\<close>

text \<open>Tables as \<open>kubectl get pods\<close> prints them, and a run with one pod, \<open>myapp\<close> on port 8080.\<close>

definition table_header :: string where
  "table_header = ''NAME READY STATUS RESTARTS AGE''"

definition table_running :: string where
  "table_running = table_header @ nl @ ''myapp-7f8c9 1/1 Running 0 3m'' @ nl"

definition table_pending :: string where
  "table_pending = table_header @ nl @ ''myapp-7f8c9 0/1 Pending 0 10s'' @ nl"

definition table_empty :: string where
  "table_empty = table_header @ nl"

definition table_webapp :: string where
  "table_webapp = table_header @ nl @ ''webapp-1a2b 1/1 Running 0 3m'' @ nl"

text \<open>
  Tables with several lines that contain \<open>myapp\<close>: in \<open>table_two\<close> another instance is
  listed as Running above \<open>myapp-7f8c9\<close>; in \<open>table_mixed\<close> the lines above it are a
  workload with a longer name and an instance that is Pending; in \<open>table_mixed_pending\<close>
  the only line that starts with \<open>myapp\<close> is Pending.
\<close>

definition table_two :: string where
  "table_two = table_header @ nl @ ''myapp-1 1/1 Running 0 1m'' @ nl
     @ ''myapp-7f8c9 1/1 Running 0 3m'' @ nl"

definition table_mixed :: string where
  "table_mixed = table_header @ nl @ ''xmyapp-2 1/1 Running 0 5m'' @ nl
     @ ''myapp-1 0/1 Pending 0 2s'' @ nl @ ''myapp-7f8c9 1/1 Running 0 3m'' @ nl
     @ ''myapp-9 1/1 Running 0 1m'' @ nl"

definition table_mixed_pending :: string where
  "table_mixed_pending = table_header @ nl @ ''xmyapp-2 1/1 Running 0 5m'' @ nl
     @ ''myapp-7f8c9 0/1 Pending 0 10s'' @ nl @ ''db-0 1/1 Running 0 3m'' @ nl"

definition session0 :: state where
  "session0 = start None None 5000 [new_pod ''myapp'' ''8080'' ''8080'' None]"

definition global_config :: "(string \<times> jval) list" where
  "global_config =
     [(''db'', JObj [(''from'', JNum 5432), (''to'', JNum 5433), (''namespace'', JStr ''staging'')])]"

definition local_config :: "(string \<times> jval) list" where
  "local_config = [(''db'', JObj [(''from'', JNum 15432)])]"

definition bare_global_config :: "(string \<times> jval) list" where
  "bare_global_config = [(''web'', JNum 80)]"

definition bare_local_config :: "(string \<times> jval) list" where
  "bare_local_config = [(''web'', JNum 8080)]"

text \<open>Lines as \<open>kubectl port-forward\<close> and \<open>kubectl get pods\<close> print them.\<close>

definition line_forwarding :: string where
  "line_forwarding = ''Forwarding from 127.0.0.1:8080 -> 8080''"

definition line_forwarding6 :: string where
  "line_forwarding6 = ''Forwarding from [::1]:8080 -> 8080''"

definition line_in_use :: string where
  "line_in_use = ''bind: address already in use''"

definition line_denied :: string where
  "line_denied = ''listen tcp4 127.0.0.1:80: bind: permission denied''"

definition stderr_timeout :: string where
  "stderr_timeout = ''dial tcp 10.0.0.1:443: i/o timeout''"

text \<open>
  The run with one pod after start-up (\<open>started0\<close>: instance resolved, tunnel spawned,
  health check armed), after the tunnel has reported that it forwards (\<open>active0\<close>), and
  after a health check has been called on the active session (\<open>ticking0\<close>).
\<close>

definition started0 :: state where
  "started0 = step (ExecDone 0 (ExecOk table_running)) session0"

definition active0 :: state where
  "active0 = step (Data 0 line_forwarding) started0"

definition ticking0 :: state where
  "ticking0 = step Interval active0"

text \<open>
  \<open>dead0\<close>: the pod has vanished from the table, a health check has detected the death
  and the first reconnection attempt is pending.
  \<open>twice0\<close>: then the \<open>'close'\<close> event of the killed tunnel arrives and a second health
  check completes while that first attempt is still pending; \<open>both0\<close>: then both pending
  attempts complete with the pod back in the table.
  \<open>lone0\<close>: the tunnel of the active session ends by itself and a health check detects
  it; \<open>stuck0\<close>: then the query of the first reconnection attempt fails with a network
  error;
  \<open>stuck1\<close>: then a further health check completes with the pod in the table.
\<close>

definition dead0 :: state where
  "dead0 = step (ExecDone 1 (ExecOk table_empty)) ticking0"

definition twice0 :: state where
  "twice0 = run [Close 0, Interval, ExecDone 3 (ExecOk table_empty)] dead0"

definition both0 :: state where
  "both0 = run [ExecDone 2 (ExecOk table_running), ExecDone 4 (ExecOk table_running)] twice0"

definition lone0 :: state where
  "lone0 = run [Close 0, Interval, ExecDone 1 (ExecOk table_running)] active0"

definition stuck0 :: state where
  "stuck0 = step (ExecDone 2 (ExecError stderr_timeout)) lone0"

definition stuck1 :: state where
  "stuck1 = run [Interval, ExecDone 3 (ExecOk table_running)] stuck0"




text \<open>A run with two pods, \<open>myapp\<close> and \<open>db\<close>, after start-up.\<close>

definition table_pair :: string where
  "table_pair = table_header @ nl @ ''myapp-7f8c9 1/1 Running 0 3m'' @ nl
     @ ''db-0 1/1 Running 0 3m'' @ nl"

definition pair0 :: state where
  "pair0 = start None None 5000
     [new_pod ''myapp'' ''8080'' ''8080'' None, new_pod ''db'' ''5432'' ''5433'' None]"

definition pair_started :: state where
  "pair_started = step (ExecDone 0 (ExecOk table_pair)) pair0"

text \<open>
  \<open>pair_dead\<close>: the first health check completes before either tunnel has reported that
  it forwards, so both pods are taken for dead and a reconnection attempt is pending for
  each. \<open>pair_excluded\<close>: then the first tunnel of \<open>myapp\<close> prints that the address is in
  use; \<open>pair_respawned\<close>: then the pending attempt for \<open>myapp\<close> is answered;
  \<open>pair_ignored\<close>: then the new tunnel prints that the address is in use;
  \<open>pair_exit\<close>: then the run is ended by SIGINT.
  \<open>pair_late\<close>: the pending attempt for \<open>myapp\<close> is answered first, and the line of the
  first tunnel arrives when the pod has its second tunnel.
\<close>

definition pair_dead :: state where
  "pair_dead = run [Interval, ExecDone 1 (ExecOk table_pair)] pair_started"

definition pair_excluded :: state where
  "pair_excluded = step (Data 0 line_in_use) pair_dead"

definition pair_respawned :: state where
  "pair_respawned = step (ExecDone 2 (ExecOk table_pair)) pair_excluded"

definition pair_ignored :: state where
  "pair_ignored = step (Data 2 line_in_use) pair_respawned"

definition pair_exit :: state where
  "pair_exit = step (Signal SIGINT) pair_ignored"

definition pair_late :: state where
  "pair_late = run [ExecDone 2 (ExecOk table_pair), Data 0 line_in_use] pair_dead"

section \<open>Evaluation of the string functions\<close>

lemmas class_defs = digit_def lower_def upper_def idchar_def alpha_def space_def dot_def

lemmas rx_defs = running_rx_def error_rx_def alive_rx_def lit_def group1_def error_group2_def

lemmas table_defs = table_header_def table_running_def table_pending_def table_empty_def
  table_webapp_def nl_def

lemma join_lines_Cons:
  "join_lines (l # ls) = (if ls = [] then l else l @ CHR 0x0A # join_lines ls)"
  by (cases ls) simp_all

section \<open>The workload identity matcher\<close>

lemma getPodId_first_running:
  assumes "filterPods rawPods ''myapp'' = ''myapp-7f8c9 1/1 Running 0 3m'' # rest"
  shows "getPodId ns rawPods ''myapp'' silent = Inr (Some ''myapp-7f8c9'')"
  using assms by (simp add: getPodId_def join_lines_Cons rx_defs class_defs)

lemma getPodId_only_pending:
  assumes "filterPods rawPods ''myapp'' = [''myapp-7f8c9 0/1 Pending 0 10s'']"
  shows "getPodId ns rawPods ''myapp'' silent =
           (if silent then Inr None else Inl (PodNotRunning ''myapp'' ''Pending''))"
  using assms by (simp add: getPodId_def rx_defs class_defs)

lemma filterPods_table_running:
  "filterPods table_running ''myapp'' = [''myapp-7f8c9 1/1 Running 0 3m'']"
  by (simp add: filterPods_def table_defs)

lemma filterPods_table_pending:
  "filterPods table_pending ''myapp'' = [''myapp-7f8c9 0/1 Pending 0 10s'']"
  by (simp add: filterPods_def table_defs)

text \<open>
  The table is a text of lines. Below, a table is written as the lines \<open>pre\<close> above the
  line in question, each ended by a line feed, then that line, then the lines \<open>post\<close>
  below it, each preceded by a line feed.
  The patterns of \<open>getPodId\<close> cannot match across a line feed, so the leftmost match in
  the joined lines is the leftmost match in the first line that has one; and a line that
  does not contain \<open>Running\<close> has none for the first pattern.
\<close>

lemma rx_match_line:
  assumes "\<forall>i \<in> set r. (case i of One p \<Rightarrow> \<not> p (CHR 0x0A) | Star p \<Rightarrow> \<not> p (CHR 0x0A))"
  shows "rx_match r (l @ CHR 0x0A # rest) = rx_match r l"
  using assms by (induction r l rule: rx_match.induct) (auto split: option.splits list.splits)

lemma rx_exec_line:
  assumes "\<forall>i \<in> set r. (case i of One p \<Rightarrow> \<not> p (CHR 0x0A) | Star p \<Rightarrow> \<not> p (CHR 0x0A))"
  shows "rx_exec r (l @ CHR 0x0A # rest) =
           (case rx_exec r l of Some segs \<Rightarrow> Some segs | None \<Rightarrow> rx_exec r rest)"
proof (induction l)
  case Nil
  show ?case using rx_match_line [OF assms, of "[]" rest] by simp
next
  case (Cons c l)
  show ?case using rx_match_line [OF assms, of "c # l" rest] Cons by (simp split: option.splits)
qed

lemma startsWith_includes: "startsWith s w \<Longrightarrow> str_includes s w"
  by (cases s; cases w) simp_all

lemma rx_match_lit: "rx_match (lit w) s = Some segs \<Longrightarrow> startsWith s w"
  by (induction s w arbitrary: segs rule: startsWith.induct) (auto simp: lit_def split: if_splits)

lemma rx_match_ends_lit:
  "rx_match (r @ lit w) s = Some segs \<Longrightarrow> str_includes s w"
proof (induction "length r + length s" arbitrary: r s segs rule: less_induct)
  case less
  show ?case
  proof (cases r)
    case Nil
    with less.prems show ?thesis by (simp add: rx_match_lit startsWith_includes)
  next
    case (Cons i r')
    show ?thesis
    proof (cases s)
      case Nil
      with Cons less.prems less.hyps [of r' "[]"] show ?thesis
        by (cases i) auto
    next
      case (Cons c cs)
      note s = this
      show ?thesis
      proof (cases i)
        case (One p)
        with \<open>r = i # r'\<close> s less.prems less.hyps [of r' cs] show ?thesis
          by (auto split: if_splits)
      next
        case (Star p)
        with \<open>r = i # r'\<close> s less.prems less.hyps [of r cs] less.hyps [of r' s] show ?thesis
          by (auto split: if_splits option.splits list.splits)
      qed
    qed
  qed
qed

lemma rx_exec_ends_lit:
  "rx_exec (r @ lit w) s = Some segs \<Longrightarrow> str_includes s w"
proof (induction s)
  case Nil
  then show ?case using rx_match_ends_lit [of r w "[]" segs] by simp
next
  case (Cons c cs)
  then show ?case using rx_match_ends_lit [of r w "c # cs"] by (auto split: option.splits)
qed

lemma split_lines_line:
  "CHR 0x0A \<notin> set l \<Longrightarrow> split_lines (l @ CHR 0x0A # rest) = l # split_lines rest"
  by (induction l) auto

lemma split_lines_single: "CHR 0x0A \<notin> set l \<Longrightarrow> split_lines l = [l]"
  by (induction l) auto

lemma split_lines_table:
  assumes "\<forall>l \<in> set pre. CHR 0x0A \<notin> set l"
  shows "split_lines (concat (map (\<lambda>l. l @ [CHR 0x0A]) pre) @ x) = pre @ split_lines x"
  using assms by (induction pre) (simp_all add: split_lines_line)

lemma split_lines_after:
  assumes "CHR 0x0A \<notin> set l"
  shows "\<exists>ls. split_lines (l @ concat (map ((#) (CHR 0x0A)) post)) = l # ls"
  using assms by (cases post) (simp_all add: split_lines_single split_lines_line)

lemma split_lines_after_lines:
  assumes "CHR 0x0A \<notin> set l" "\<forall>m \<in> set post. CHR 0x0A \<notin> set m"
  shows "split_lines (l @ concat (map ((#) (CHR 0x0A)) post)) = l # post"
  using assms by (induction post arbitrary: l) (simp_all add: split_lines_single split_lines_line)

lemma running_rx_line:
  "\<forall>i \<in> set (running_rx ''myapp'').
     (case i of One p \<Rightarrow> \<not> p (CHR 0x0A) | Star p \<Rightarrow> \<not> p (CHR 0x0A))"
  by (simp add: rx_defs class_defs)

lemma rx_exec_join_skip:
  assumes "\<forall>i \<in> set r. (case i of One p \<Rightarrow> \<not> p (CHR 0x0A) | Star p \<Rightarrow> \<not> p (CHR 0x0A))"
    and "\<forall>l \<in> set ls. rx_exec r l = None"
  shows "rx_exec r (join_lines (ls @ x # xs)) = rx_exec r (join_lines (x # xs))"
  using assms(2) by (induction ls) (simp_all add: join_lines_Cons rx_exec_line [OF assms(1)])

lemma rx_exec_join_head:
  assumes "\<forall>i \<in> set r. (case i of One p \<Rightarrow> \<not> p (CHR 0x0A) | Star p \<Rightarrow> \<not> p (CHR 0x0A))"
    and "rx_exec r x = Some segs"
  shows "rx_exec r (join_lines (x # xs)) = Some segs"
  using assms(2) by (simp add: join_lines_Cons rx_exec_line [OF assms(1)])

lemma running_rx_needs_Running:
  assumes "\<not> str_includes l ''Running''"
  shows "rx_exec (running_rx podName) l = None"
proof (cases "rx_exec (running_rx podName) l")
  case (Some segs)
  then have "rx_exec ((lit podName @ [Star idchar, Star dot]) @ lit ''Running'') l = Some segs"
    by (simp add: running_rx_def)
  from rx_exec_ends_lit [OF this] assms show ?thesis by simp
qed simp

lemma getPodId_first_Running_line:
  assumes raw: "rawPods = concat (map (\<lambda>l. l @ [CHR 0x0A]) pre)
                  @ ''myapp-7f8c9 1/1 Running 0 3m'' @ concat (map ((#) (CHR 0x0A)) post)"
    and lines: "\<forall>l \<in> set pre. CHR 0x0A \<notin> set l"
    and earlier: "\<forall>l \<in> set pre. startsWith l ''myapp'' \<longrightarrow> \<not> str_includes l ''Running''"
  shows "getPodId ns rawPods ''myapp'' silent = Inr (Some ''myapp-7f8c9'')"
proof -
  obtain ls where "split_lines (''myapp-7f8c9 1/1 Running 0 3m'' @ concat (map ((#) (CHR 0x0A)) post))
      = ''myapp-7f8c9 1/1 Running 0 3m'' # ls"
    using split_lines_after [of "''myapp-7f8c9 1/1 Running 0 3m''" post] by auto
  then have "split_lines rawPods = pre @ ''myapp-7f8c9 1/1 Running 0 3m'' # ls"
    unfolding raw using split_lines_table [OF lines] by simp
  then have f: "filterPods rawPods ''myapp'' =
      filter (\<lambda>l. startsWith l ''myapp'') pre @ ''myapp-7f8c9 1/1 Running 0 3m''
        # filter (\<lambda>l. startsWith l ''myapp'') ls"
    by (simp add: filterPods_def)
  have none: "\<forall>l \<in> set (filter (\<lambda>l. startsWith l ''myapp'') pre).
      rx_exec (running_rx ''myapp'') l = None"
    using earlier by (simp add: running_rx_needs_Running)
  have here: "rx_exec (running_rx ''myapp'') ''myapp-7f8c9 1/1 Running 0 3m'' =
      Some [''m'', ''y'', ''a'', ''p'', ''p'', ''-7f8c9'', '' 1/1 '', ''R'', ''u'', ''n'', ''n'', ''i'', ''n'', ''g'']"
    by (simp add: rx_defs class_defs)
  have "rx_exec (running_rx ''myapp'') (join_lines (filterPods rawPods ''myapp'')) =
      Some [''m'', ''y'', ''a'', ''p'', ''p'', ''-7f8c9'', '' 1/1 '', ''R'', ''u'', ''n'', ''n'', ''i'', ''n'', ''g'']"
    unfolding f
    using rx_exec_join_skip [OF running_rx_line none] rx_exec_join_head [OF running_rx_line here]
    by simp
  then show ?thesis by (simp add: getPodId_def group1_def)
qed

lemma getPodId_only_Pending_line:
  assumes raw: "rawPods = concat (map (\<lambda>l. l @ [CHR 0x0A]) pre)
                  @ ''myapp-7f8c9 0/1 Pending 0 10s'' @ concat (map ((#) (CHR 0x0A)) post)"
    and lines: "\<forall>l \<in> set pre. CHR 0x0A \<notin> set l" "\<forall>l \<in> set post. CHR 0x0A \<notin> set l"
    and others: "\<forall>l \<in> set pre. \<not> startsWith l ''myapp''" "\<forall>l \<in> set post. \<not> startsWith l ''myapp''"
  shows "filterPods rawPods ''myapp'' = [''myapp-7f8c9 0/1 Pending 0 10s'']"
proof -
  have "CHR 0x0A \<notin> set ''myapp-7f8c9 0/1 Pending 0 10s''" by simp
  note after = split_lines_after_lines [OF this lines(2)]
  have "split_lines rawPods = pre @ ''myapp-7f8c9 0/1 Pending 0 10s'' # post"
    unfolding raw by (simp only: split_lines_table [OF lines(1)] after)
  then show ?thesis using others by (simp add: filterPods_def)
qed

text \<open>
  C9, amended. When the table contains the line \<open>myapp-7f8c9 1/1 Running 0 3m\<close> and no
  line above it both starts with \<open>myapp\<close> and contains \<open>Running\<close>, \<open>getPodId\<close> for the
  name \<open>myapp\<close> returns \<open>myapp-7f8c9\<close>, silent or not, whatever the lines below are.
  When the only line of the table that starts with \<open>myapp\<close> is
  \<open>myapp-7f8c9 0/1 Pending 0 10s\<close>, the non-silent call throws an error whose message
  contains \<open>Pending\<close>, and the silent call returns \<open>false\<close> (not found).
\<close>

theorem getPodId_first_running_only_pending:
  "(rawPods = concat (map (\<lambda>l. l @ [CHR 0x0A]) pre)
       @ ''myapp-7f8c9 1/1 Running 0 3m'' @ concat (map ((#) (CHR 0x0A)) post)
    \<and> (\<forall>l \<in> set pre. CHR 0x0A \<notin> set l)
    \<and> (\<forall>l \<in> set pre. startsWith l ''myapp'' \<longrightarrow> \<not> str_includes l ''Running'')
    \<longrightarrow> getPodId ns rawPods ''myapp'' silent = Inr (Some ''myapp-7f8c9''))
   \<and> (rawPods' = concat (map (\<lambda>l. l @ [CHR 0x0A]) pre')
         @ ''myapp-7f8c9 0/1 Pending 0 10s'' @ concat (map ((#) (CHR 0x0A)) post')
      \<and> (\<forall>l \<in> set pre' \<union> set post'. CHR 0x0A \<notin> set l \<and> \<not> startsWith l ''myapp'')
      \<longrightarrow> (\<exists>e. getPodId ns rawPods' ''myapp'' False = Inl e
                \<and> str_includes (message e) ''Pending'')
          \<and> getPodId ns rawPods' ''myapp'' True = Inr None)"
proof (intro conjI impI)
  assume "rawPods = concat (map (\<lambda>l. l @ [CHR 0x0A]) pre)
       @ ''myapp-7f8c9 1/1 Running 0 3m'' @ concat (map ((#) (CHR 0x0A)) post)
    \<and> (\<forall>l \<in> set pre. CHR 0x0A \<notin> set l)
    \<and> (\<forall>l \<in> set pre. startsWith l ''myapp'' \<longrightarrow> \<not> str_includes l ''Running'')"
  then show "getPodId ns rawPods ''myapp'' silent = Inr (Some ''myapp-7f8c9'')"
    using getPodId_first_Running_line [of rawPods pre post ns silent] by blast
next
  assume "rawPods' = concat (map (\<lambda>l. l @ [CHR 0x0A]) pre')
         @ ''myapp-7f8c9 0/1 Pending 0 10s'' @ concat (map ((#) (CHR 0x0A)) post')
      \<and> (\<forall>l \<in> set pre' \<union> set post'. CHR 0x0A \<notin> set l \<and> \<not> startsWith l ''myapp'')"
  then have f: "filterPods rawPods' ''myapp'' = [''myapp-7f8c9 0/1 Pending 0 10s'']"
    using getPodId_only_Pending_line [of rawPods' pre' post'] by blast
  show "\<exists>e. getPodId ns rawPods' ''myapp'' False = Inl e \<and> str_includes (message e) ''Pending''"
    using getPodId_only_pending [OF f, of ns False] by simp
  show "getPodId ns rawPods' ''myapp'' True = Inr None"
    using getPodId_only_pending [OF f, of ns True] by simp
qed

theorem getPodId_first_running_only_pending_witness:
  "table_mixed = concat (map (\<lambda>l. l @ [CHR 0x0A])
       [table_header, ''xmyapp-2 1/1 Running 0 5m'', ''myapp-1 0/1 Pending 0 2s''])
     @ ''myapp-7f8c9 1/1 Running 0 3m''
     @ concat (map ((#) (CHR 0x0A)) [''myapp-9 1/1 Running 0 1m'', []])
   \<and> getPodId None table_mixed ''myapp'' False = Inr (Some ''myapp-7f8c9'')
   \<and> table_mixed_pending = concat (map (\<lambda>l. l @ [CHR 0x0A])
         [table_header, ''xmyapp-2 1/1 Running 0 5m''])
       @ ''myapp-7f8c9 0/1 Pending 0 10s''
       @ concat (map ((#) (CHR 0x0A)) [''db-0 1/1 Running 0 3m'', []])
   \<and> getPodId None table_mixed_pending ''myapp'' False = Inl (PodNotRunning ''myapp'' ''Pending'')
   \<and> str_includes (message (PodNotRunning ''myapp'' ''Pending'')) ''Pending''
   \<and> getPodId None table_mixed_pending ''myapp'' True = Inr None"
proof -
  let ?pre = "[table_header, ''xmyapp-2 1/1 Running 0 5m'', ''myapp-1 0/1 Pending 0 2s'']"
  let ?post = "[''myapp-9 1/1 Running 0 1m'', []]"
  let ?pre' = "[table_header, ''xmyapp-2 1/1 Running 0 5m'']"
  let ?post' = "[''db-0 1/1 Running 0 3m'', []]"
  have shape: "table_mixed = concat (map (\<lambda>l. l @ [CHR 0x0A]) ?pre)
      @ ''myapp-7f8c9 1/1 Running 0 3m'' @ concat (map ((#) (CHR 0x0A)) ?post)"
    by (simp add: table_mixed_def table_header_def nl_def)
  have shape': "table_mixed_pending = concat (map (\<lambda>l. l @ [CHR 0x0A]) ?pre')
      @ ''myapp-7f8c9 0/1 Pending 0 10s'' @ concat (map ((#) (CHR 0x0A)) ?post')"
    by (simp add: table_mixed_pending_def table_header_def nl_def)
  have lines: "\<forall>l \<in> set ?pre. CHR 0x0A \<notin> set l"
    and earlier: "\<forall>l \<in> set ?pre. startsWith l ''myapp'' \<longrightarrow> \<not> str_includes l ''Running''"
    and others: "\<forall>l \<in> set ?pre' \<union> set ?post'. CHR 0x0A \<notin> set l \<and> \<not> startsWith l ''myapp''"
    by (simp_all add: table_header_def)
  note T = getPodId_first_running_only_pending
    [of table_mixed ?pre ?post None False table_mixed_pending ?pre' ?post']
  from T shape lines earlier
  have A: "getPodId None table_mixed ''myapp'' False = Inr (Some ''myapp-7f8c9'')"
    by blast
  from T shape' others
  have B: "getPodId None table_mixed_pending ''myapp'' True = Inr None"
    by blast
  have f: "filterPods table_mixed_pending ''myapp'' = [''myapp-7f8c9 0/1 Pending 0 10s'']"
    by (simp add: filterPods_def table_mixed_pending_def table_header_def nl_def)
  have C: "getPodId None table_mixed_pending ''myapp'' False = Inl (PodNotRunning ''myapp'' ''Pending'')"
    using getPodId_only_pending [OF f, of None False] by simp
  have D: "str_includes (message (PodNotRunning ''myapp'' ''Pending'')) ''Pending''"
    by simp
  show ?thesis by (intro conjI shape A shape' C D B)
qed

text \<open>
  C9, as stated, fails: in \<open>table_two\<close> the line \<open>myapp-7f8c9 1/1 Running 0 3m\<close> is a
  line of the table, but the line above it starts with \<open>myapp\<close> and is Running too, and
  \<open>getPodId\<close> returns the instance of that line, which is where the leftmost match is.
\<close>

theorem getPodId_returns_earlier_running_line:
  "''myapp-7f8c9 1/1 Running 0 3m'' \<in> set (split_lines table_two)
   \<and> getPodId None table_two ''myapp'' False = Inr (Some ''myapp-1'')
   \<and> getPodId None table_two ''myapp'' True = Inr (Some ''myapp-1'')"
  by (simp add: getPodId_def filterPods_def table_two_def table_header_def nl_def
        rx_defs class_defs)

text \<open>
  C10. The lines are filtered by a prefix test and the instance token is the name
  followed by any run of hyphens, digits and lower-case letters, so the name \<open>web\<close>
  resolves to the instance of another workload: on a table whose only pod line is
  \<open>webapp-1a2b 1/1 Running 0 3m\<close>, \<open>getPodId\<close> for \<open>web\<close> returns \<open>webapp-1a2b\<close>.
\<close>

theorem getPodId_prefix_of_longer_name:
  "getPodId ns table_webapp ''web'' silent = Inr (Some ''webapp-1a2b'')"
  by (simp add: getPodId_def filterPods_def table_defs rx_defs class_defs)

section \<open>Evaluation on the concrete inputs\<close>

lemmas line_defs = line_forwarding_def line_forwarding6_def line_in_use_def line_denied_def
  stderr_timeout_def

lemma classify_lines:
  "classify line_forwarding = ForwardingFrom"
  "classify line_forwarding6 = ForwardingFrom"
  "classify line_in_use = AddressInUse"
  "classify line_denied = PermissionDenied"
  by (simp_all add: classify_def line_defs)

lemma is_network_error_timeout: "is_network_error stderr_timeout"
  by (simp add: is_network_error_def line_defs)

lemma getPodId_table_running:
  "getPodId ns table_running ''myapp'' silent = Inr (Some ''myapp-7f8c9'')"
  by (simp add: getPodId_first_running filterPods_table_running)

lemma getPodId_table_empty: "getPodId ns table_empty ''myapp'' True = Inr None"
  by (simp add: getPodId_def filterPods_def table_defs rx_defs class_defs)

lemma alive_table_running: "rx_exec (alive_rx ''myapp-7f8c9'') table_running \<noteq> None"
  by (simp add: table_defs rx_defs class_defs)

lemma alive_table_empty: "rx_exec (alive_rx ''myapp-7f8c9'') table_empty = None"
  by (simp add: table_defs rx_defs class_defs)

lemma session0_fields:
  "pods session0 0 = new_pod ''myapp'' ''8080'' ''8080'' None"
  "runningPods session0 = [0]" "kubeConfig session0 = None" "namespace session0 = None"
  "restartAttempt session0 = 0" "healthInterval session0 = 5000"
  "next_pid session0 = 0" "timers session0 = []" "next_timer session0 = 0"
  "inflight session0 = [(0, InitCb)]" "next_req session0 = 1"
  "interval session0 = None" "exited session0 = None"
  by (simp_all add: session0_def start_def)

lemmas op_defs = update_pod_def kill_def setTimeout_def clearTimeout_def exec_getPods_def
  portForwardPod_def forward_args_def tryReinitPod_def healthCheck_def close_handler_def
  kill_child_def network_error_pod_def

lemmas cb_defs = step_def getPods_done_def callback_of_def run_task_def healthCheck_cb_def
  health_pod_def tryReinitPod_cb_def reinit_not_found_def formalInit_cb_def
  processKubectlLog_def

lemma started0_fields:
  "pods started0 0 =
     \<lparr>name = ''myapp'', pod_from = ''8080'', pod_to = ''8080'', pod_namespace = None,
      pod_id = ''myapp-7f8c9'', childProcess = Some 0, initialized = False,
      restartingState = False, excluded = False, initInterval = None\<rparr>"
  "procs started0 0 =
     \<lparr>owner = 0, argv = [''port-forward'', ''myapp-7f8c9'', ''8080:8080''], status = Live\<rparr>"
  "runningPods started0 = [0]" "kubeConfig started0 = None" "namespace started0 = None"
  "restartAttempt started0 = 0" "healthInterval started0 = 5000"
  "next_pid started0 = 1" "timers started0 = []" "next_timer started0 = 0"
  "inflight started0 = []" "next_req started0 = 1"
  "interval started0 = Some 5000" "exited started0 = None"
  by (simp_all add: started0_def cb_defs op_defs session0_fields getPodId_table_running
        new_pod_def Let_def)

lemma active0_fields:
  "pods active0 0 =
     \<lparr>name = ''myapp'', pod_from = ''8080'', pod_to = ''8080'', pod_namespace = None,
      pod_id = ''myapp-7f8c9'', childProcess = Some 0, initialized = True,
      restartingState = False, excluded = False, initInterval = None\<rparr>"
  "procs active0 0 =
     \<lparr>owner = 0, argv = [''port-forward'', ''myapp-7f8c9'', ''8080:8080''], status = Live\<rparr>"
  "runningPods active0 = [0]" "kubeConfig active0 = None" "namespace active0 = None"
  "restartAttempt active0 = 0" "healthInterval active0 = 5000"
  "next_pid active0 = 1" "timers active0 = []" "next_timer active0 = 0"
  "inflight active0 = []" "next_req active0 = 1"
  "interval active0 = Some 5000" "exited active0 = None"
  by (simp_all add: active0_def cb_defs op_defs started0_fields classify_lines)

lemma ticking0_fields:
  "pods ticking0 0 = pods active0 0"
  "procs ticking0 0 = procs active0 0"
  "runningPods ticking0 = [0]" "kubeConfig ticking0 = None" "namespace ticking0 = None"
  "restartAttempt ticking0 = 0" "healthInterval ticking0 = 5000"
  "next_pid ticking0 = 1" "timers ticking0 = []" "next_timer ticking0 = 0"
  "inflight ticking0 = [(1, HealthCb)]" "next_req ticking0 = 2"
  "interval ticking0 = Some 5000" "exited ticking0 = None"
  by (simp_all add: ticking0_def cb_defs op_defs active0_fields)

section \<open>What the exit handler leaves alone\<close>

lemma kill_all_fields:
  "pods (kill_all rs s) = pods s \<and> runningPods (kill_all rs s) = runningPods s
   \<and> timers (kill_all rs s) = timers s \<and> inflight (kill_all rs s) = inflight s
   \<and> exited (kill_all rs s) = exited s \<and> next_pid (kill_all rs s) = next_pid s
   \<and> next_req (kill_all rs s) = next_req s \<and> next_timer (kill_all rs s) = next_timer s
   \<and> interval (kill_all rs s) = interval s \<and> namespace (kill_all rs s) = namespace s
   \<and> (\<forall>c. owner (procs (kill_all rs s) c) = owner (procs s c))"
  by (induction rs arbitrary: s) (auto simp: kill_def split: option.splits)

lemma cleanup_fields [simp]:
  "pods (cleanup s) = pods s" "runningPods (cleanup s) = runningPods s"
  "timers (cleanup s) = timers s" "inflight (cleanup s) = inflight s"
  "exited (cleanup s) = exited s" "next_pid (cleanup s) = next_pid s"
  "next_req (cleanup s) = next_req s" "next_timer (cleanup s) = next_timer s"
  "interval (cleanup s) = interval s" "namespace (cleanup s) = namespace s"
  "owner (procs (cleanup s) c) = owner (procs s c)"
  using kill_all_fields [of "runningPods s" s] by (simp_all add: cleanup_def)

section \<open>Invariants of the reachable states\<close>

text \<open>
  Every callback keeps \<open>wf_state\<close>, and it holds when the top-level code has built the
  pods: it holds in every state of every run. The theorems below assume parts of it.
\<close>

lemma wf_process_exit [simp]: "wf_state s \<Longrightarrow> wf_state (process_exit code s)"
  by (simp add: wf_state_def fresh_ids_def process_exit_def)

lemma wf_network_error_pod: "wf_state s \<Longrightarrow> wf_state (network_error_pod r s)"
  by (auto simp: wf_state_def fresh_ids_def network_error_pod_def kill_child_def uncaught_def
      process_exit_def kill_def update_pod_def split: option.splits)

lemma wf_health_pod: "wf_state s \<Longrightarrow> wf_state (health_pod rawPods r s)"
  by (auto simp: wf_state_def fresh_ids_def health_pod_def kill_child_def uncaught_def
      process_exit_def kill_def update_pod_def clearTimeout_def tryReinitPod_def
      exec_getPods_def Let_def less_Suc_eq split: option.splits)

lemma wf_portForwardPod: "wf_state s \<Longrightarrow> wf_state (portForwardPod r s)"
  by (auto simp: wf_state_def fresh_ids_def portForwardPod_def update_pod_def Let_def
      less_Suc_eq)

lemma wf_update_pod:
  assumes "wf_state s" and "\<And>p. childProcess (f p) = childProcess p"
    and "\<And>p. initialized (f p) = initialized p"
  shows "wf_state (update_pod r f s)"
  using assms(1) by (auto simp: wf_state_def fresh_ids_def update_pod_def assms(2,3))

lemma wf_setTimeout: "wf_state s \<Longrightarrow> wf_state (setTimeout k d s)"
  by (auto simp: wf_state_def fresh_ids_def setTimeout_def less_Suc_eq)

lemma wf_tryReinitPod_cb:
  assumes "wf_state s"
  shows "wf_state (tryReinitPod_cb r n a s)"
proof -
  have nf: "wf_state (reinit_not_found r n s)"
    using assms by (simp add: reinit_not_found_def wf_update_pod wf_setTimeout)
  have f: "wf_state (portForwardPod r (update_pod r (\<lambda>p. p\<lparr>pod_id := i\<rparr>) s))" for i
    using assms by (intro wf_portForwardPod wf_update_pod) simp_all
  show ?thesis
    using assms nf f
    by (simp add: tryReinitPod_cb_def uncaught_def split: cb_args.splits sum.splits option.splits)
qed

lemma wf_resolve_ids: "wf_state s \<Longrightarrow> wf_state (snd (resolve_ids rawPods rs s))"
proof (induction rs arbitrary: s)
  case Nil
  then show ?case by simp
next
  case (Cons r rs)
  have "wf_state (update_pod r (\<lambda>p. p\<lparr>pod_id := i\<rparr>) s)" for i
    using Cons.prems by (intro wf_update_pod) simp_all
  with Cons show ?case
    by (simp split: sum.splits option.splits)
qed

lemma wf_forEach:
  assumes "\<And>r t. wf_state t \<Longrightarrow> wf_state (f r t)" and "wf_state s"
  shows "wf_state (forEach f rs s)"
  using assms(2) by (induction rs arbitrary: s) (simp_all add: Let_def assms(1))

lemma wf_healthCheck_cb: "wf_state s \<Longrightarrow> wf_state (healthCheck_cb a s)"
  by (cases a) (simp_all add: healthCheck_cb_def wf_forEach wf_health_pod)

lemma wf_formalInit_cb:
  assumes "wf_state s"
  shows "wf_state (formalInit_cb a s)"
proof (cases a)
  case CbError
  with assms show ?thesis
    by (auto simp: formalInit_cb_def wf_state_def fresh_ids_def setTimeout_def less_Suc_eq)
next
  case (CbOk rawPods)
  obtain e t where rt: "resolve_ids rawPods (runningPods s) s = (e, t)"
    by (cases "resolve_ids rawPods (runningPods s) s")
  have t: "wf_state t"
    using wf_resolve_ids [OF assms, of rawPods "runningPods s"] rt by simp
  have "wf_state (forEach portForwardPod (runningPods t) t)"
    using t by (intro wf_forEach wf_portForwardPod)
  then have "wf_state ((forEach portForwardPod (runningPods t) t)
                \<lparr>interval := Some (healthInterval (forEach portForwardPod (runningPods t) t))\<rparr>)"
    by (simp add: wf_state_def fresh_ids_def)
  with t show ?thesis
    by (cases e) (simp_all add: CbOk formalInit_cb_def rt Let_def)
qed

lemma wf_callback_of: "wf_state s \<Longrightarrow> wf_state (callback_of k a s)"
  by (cases k) (simp_all add: callback_of_def wf_healthCheck_cb wf_tryReinitPod_cb wf_formalInit_cb)

lemma wf_getPods_done:
  assumes "\<And>a t. wf_state t \<Longrightarrow> wf_state (cb a t)" and "wf_state s"
  shows "wf_state (getPods_done cb res s)"
proof (cases res)
  case (ExecOk stdout)
  have "wf_state (if 0 < restartAttempt s then s\<lparr>restartAttempt := 0\<rparr> else s)"
    using assms(2) by (simp add: wf_state_def fresh_ids_def)
  then show ?thesis
    by (simp add: ExecOk getPods_done_def assms(1))
next
  case (ExecError stderr)
  have "wf_state (s\<lparr>restartAttempt := Suc (restartAttempt s)\<rparr>)"
    using assms(2) by (simp add: wf_state_def fresh_ids_def)
  then have "wf_state (forEach network_error_pod (runningPods s)
                (s\<lparr>restartAttempt := Suc (restartAttempt s)\<rparr>))"
    by (intro wf_forEach wf_network_error_pod)
  then show ?thesis
    using assms by (simp add: ExecError getPods_done_def Let_def uncaught_def)
qed

lemma wf_processKubectlLog:
  assumes "wf_state s" and "childProcess (pods s r) \<noteq> None"
  shows "wf_state (processKubectlLog logLine r child s)"
  using assms
  by (cases "classify logLine")
    (auto simp: wf_state_def fresh_ids_def processKubectlLog_def process_exit_def kill_def
      update_pod_def healthCheck_def exec_getPods_def Let_def less_Suc_eq)

lemma wf_step:
  assumes "wf_state s"
  shows "wf_state (step e s)"
proof (cases "exited s = None")
  case False
  with assms show ?thesis by (simp add: step_def)
next
  case alive: True
  show ?thesis
  proof (cases e)
    case Interval
    with assms show ?thesis
      by (auto simp: step_def wf_state_def fresh_ids_def healthCheck_def exec_getPods_def
          less_Suc_eq split: option.splits)
  next
    case (ExecDone q res)
    have "wf_state (s\<lparr>inflight := filter (\<lambda>e. fst e \<noteq> q) (inflight s)\<rparr>)"
      using assms by (simp add: wf_state_def fresh_ids_def)
    then show ?thesis
      using assms by (simp add: step_def ExecDone wf_getPods_done wf_callback_of split: option.splits)
  next
    case (TimerFire h)
    with assms show ?thesis
      by (auto simp: step_def wf_state_def fresh_ids_def run_task_def tryReinitPod_def
          exec_getPods_def clearTimeout_def less_Suc_eq split: option.splits task.splits)
  next
    case (Data c logLine)
    have "wf_state (processKubectlLog logLine (owner (procs s c)) c s)" if "c < next_pid s"
      using assms that by (intro wf_processKubectlLog) (simp_all add: wf_state_def)
    with assms show ?thesis
      by (simp add: step_def Data)
  next
    case (Close c)
    with assms show ?thesis
      by (auto simp: step_def wf_state_def fresh_ids_def close_handler_def update_pod_def)
  next
    case (Signal g)
    with assms show ?thesis
      by (simp add: step_def)
  qed
qed

lemma wf_run: "wf_state s \<Longrightarrow> wf_state (run evs s)"
  by (induction evs arbitrary: s) (simp_all add: wf_step)



lemma wf_state_premises:
  assumes "wf_state s"
  shows "fresh_ids s"
    and "\<forall>r \<in> set (runningPods s). initialized (pods s r) \<longrightarrow> childProcess (pods s r) \<noteq> None"
  using assms by (simp_all add: wf_state_def)

section \<open>The configuration merge\<close>

lemma update_fresh: "k \<notin> fst ` set al \<Longrightarrow> AList.update k v al = al @ [(k, v)]"
  by (induction al) auto

lemma map_of_merge:
  "distinct (map fst src) \<Longrightarrow>
   map_of (merge obj src) k =
     (case map_of src k of
        None \<Rightarrow> map_of obj k
      | Some (JObj sfs) \<Rightarrow>
          Some (JObj (merge (case map_of obj k of Some (JObj ofs) \<Rightarrow> ofs | _ \<Rightarrow> []) sfs))
      | Some v \<Rightarrow> Some v)"
proof (induction obj src rule: merge.induct)
  case (1 obj)
  then show ?case by simp
next
  case (2 obj k' sfs src)
  from "2.prems" have d: "distinct (map fst src)" and none: "map_of src k' = None"
    by (simp_all add: map_of_eq_None_iff)
  note ih = "2.IH"(2) [OF d]
  show ?case
  proof (cases "k = k'")
    case True
    with ih none show ?thesis
      by (auto simp: update_conv' split: option.splits jval.splits)
  next
    case False
    with ih show ?thesis
      by (auto simp: update_conv' split: option.splits jval.splits)
  qed
next
  case (3 obj k' n src)
  from "3.prems" have d: "distinct (map fst src)" and none: "map_of src k' = None"
    by (simp_all add: map_of_eq_None_iff)
  note ih = "3.IH" [OF d]
  show ?case
  proof (cases "k = k'")
    case True
    with ih none show ?thesis
      by (auto simp: update_conv' split: option.splits jval.splits)
  next
    case False
    with ih show ?thesis
      by (auto simp: update_conv' split: option.splits jval.splits)
  qed
next
  case (4 obj k' w src)
  from "4.prems" have d: "distinct (map fst src)" and none: "map_of src k' = None"
    by (simp_all add: map_of_eq_None_iff)
  note ih = "4.IH" [OF d]
  show ?case
  proof (cases "k = k'")
    case True
    with ih none show ?thesis
      by (auto simp: update_conv' split: option.splits jval.splits)
  next
    case False
    with ih show ?thesis
      by (auto simp: update_conv' split: option.splits jval.splits)
  qed
qed

text \<open>Merging a well-formed object into a destination that has none of its keys appends it.\<close>

lemma merge_disjoint:
  "wf_jval (JObj src) \<Longrightarrow> fst ` set obj \<inter> fst ` set src = {} \<Longrightarrow> merge obj src = obj @ src"
proof (induction obj src rule: merge.induct)
  case (1 obj)
  then show ?case by simp
next
  case (2 obj k sfs src)
  let ?obj' = "AList.update k
      (JObj (merge (case map_of obj k of Some (JObj ofs) \<Rightarrow> ofs | _ \<Rightarrow> []) sfs)) obj"
  from "2.prems" have k: "k \<notin> fst ` set obj" and none: "map_of obj k = None"
    by (auto simp: map_of_eq_None_iff)
  from "2.prems" have wfs: "wf_jval (JObj sfs)" and wfsrc: "wf_jval (JObj src)"
    and ksrc: "k \<notin> fst ` set src"
    by auto
  have inner: "merge [] sfs = sfs"
    using "2.IH"(1) [OF wfs] none by simp
  have obj': "?obj' = obj @ [(k, JObj sfs)]"
    using none inner k by (simp add: update_fresh)
  have "fst ` set ?obj' \<inter> fst ` set src = {}"
    using "2.prems"(2) ksrc unfolding obj' by auto
  from "2.IH"(2) [OF wfsrc this] have "merge ?obj' src = ?obj' @ src" .
  moreover have "merge obj ((k, JObj sfs) # src) = merge ?obj' src"
    by simp
  ultimately show ?case
    by (simp only: obj' append_assoc append_Cons append_Nil)
next
  case (3 obj k n src)
  then show ?case
    by (auto simp: update_fresh)
next
  case (4 obj k w src)
  then show ?case
    by (auto simp: update_fresh)
qed

lemma merge_Nil: "wf_jval (JObj src) \<Longrightarrow> merge [] src = src"
  using merge_disjoint [of src "[]"] by simp

text \<open>
  C6, as stated, fails: \<open>_.merge\<close> merges records field by field. With the user-global
  entry \<open>db: {from: 5432, to: 5433, namespace: "staging"}\<close> and the project-local entry
  \<open>db: {from: 15432}\<close>, the merged entry keeps \<open>to\<close> and \<open>namespace\<close> of the user-global
  entry, so it is not the project-local entry.
\<close>

theorem merge_keeps_global_fields:
  "map_of global_config ''db'' \<noteq> None \<and> map_of local_config ''db'' \<noteq> None
   \<and> map_of (merge global_config local_config) ''db''
       = Some (JObj [(''from'', JNum 15432), (''to'', JNum 5433), (''namespace'', JStr ''staging'')])
   \<and> map_of (merge global_config local_config) ''db'' \<noteq> map_of local_config ''db''"
  by (simp add: global_config_def local_config_def)

text \<open>
  C6, amended. For a key \<open>K\<close> present in both maps (the keys of the project-local map
  distinct), the merged entry is the project-local entry whenever that is a bare port, and
  whenever the user-global entry is a bare port (the project-local record well formed).
  When both are records, the merged entry is the field-wise merge of the
  project-local record into the user-global one: the fields of the project-local record
  win, and a field that only the user-global record has is kept.
\<close>

theorem merge_key_in_both:
  assumes "distinct (map fst localDefinedPods)"
    and "map_of systemDefinedPods K = Some gv"
    and "map_of localDefinedPods K = Some lv"
  shows "map_of (merge systemDefinedPods localDefinedPods) K =
           Some (case lv of
                   JObj lfs \<Rightarrow> JObj (merge (case gv of JObj gfs \<Rightarrow> gfs | _ \<Rightarrow> []) lfs)
                 | _ \<Rightarrow> lv)
         \<and> ((\<forall>lfs. lv \<noteq> JObj lfs) \<or> ((\<forall>gfs. gv \<noteq> JObj gfs) \<and> wf_jval lv) \<longrightarrow>
              map_of (merge systemDefinedPods localDefinedPods) K = Some lv)
         \<and> (\<forall>gfs lfs f. gv = JObj gfs \<and> lv = JObj lfs \<and> distinct (map fst lfs)
               \<and> map_of lfs f = None \<longrightarrow>
              (\<exists>mfs. map_of (merge systemDefinedPods localDefinedPods) K = Some (JObj mfs)
                     \<and> map_of mfs f = map_of gfs f))"
proof -
  have m: "map_of (merge systemDefinedPods localDefinedPods) K =
           Some (case lv of
                   JObj lfs \<Rightarrow> JObj (merge (case gv of JObj gfs \<Rightarrow> gfs | _ \<Rightarrow> []) lfs)
                 | _ \<Rightarrow> lv)"
    using assms by (simp add: map_of_merge split: jval.splits)
  have a: "map_of (merge systemDefinedPods localDefinedPods) K = Some lv"
    if "(\<forall>lfs. lv \<noteq> JObj lfs) \<or> ((\<forall>gfs. gv \<noteq> JObj gfs) \<and> wf_jval lv)"
    using that m by (cases lv; cases gv) (simp_all add: merge_Nil)
  have b: "\<exists>mfs. map_of (merge systemDefinedPods localDefinedPods) K = Some (JObj mfs)
                     \<and> map_of mfs f = map_of gfs f"
    if "gv = JObj gfs \<and> lv = JObj lfs \<and> distinct (map fst lfs) \<and> map_of lfs f = None"
    for gfs lfs f
    using that m by (simp add: map_of_merge)
  from m a b show ?thesis by blast
qed

theorem merge_key_in_both_witness:
  "distinct (map fst bare_local_config)
   \<and> map_of bare_global_config ''web'' = Some (JNum 80)
   \<and> map_of bare_local_config ''web'' = Some (JNum 8080)
   \<and> map_of (merge bare_global_config bare_local_config) ''web'' = Some (JNum 8080)
   \<and> distinct (map fst local_config)
   \<and> map_of local_config ''db'' = Some (JObj [(''from'', JNum 15432)])
   \<and> map_of [(''from'', JNum (15432::int))] ''to'' = None
   \<and> (\<exists>mfs. map_of (merge global_config local_config) ''db'' = Some (JObj mfs)
            \<and> map_of mfs ''to'' = Some (JNum 5433))"
  using merge_key_in_both [of bare_local_config bare_global_config "''web''" "JNum 80" "JNum 8080"]
    merge_key_in_both [of local_config global_config "''db''"
      "JObj [(''from'', JNum 5432), (''to'', JNum 5433), (''namespace'', JStr ''staging'')]"
      "JObj [(''from'', JNum 15432)]"]
  by (simp add: bare_local_config_def bare_global_config_def local_config_def global_config_def)

section \<open>Log classification\<close>

text \<open>
  C8. A session that is not yet forwarding (\<open>initialized\<close> false) and whose process
  prints a line classified as forwarding-established becomes active: \<open>initialized\<close> is
  set and nothing else changes. Processing a further such line leaves the state as it is.
\<close>

theorem forwarding_established_once:
  assumes "classify logLine = ForwardingFrom" and "classify logLine' = ForwardingFrom"
    and "\<not> initialized (pods s r)"
  shows "processKubectlLog logLine r child s = update_pod r (\<lambda>p. p\<lparr>initialized := True\<rparr>) s
         \<and> initialized (pods (processKubectlLog logLine r child s) r)
         \<and> processKubectlLog logLine' r child' (processKubectlLog logLine r child s)
             = processKubectlLog logLine r child s"
  using assms by (simp add: processKubectlLog_def update_pod_def)

theorem forwarding_established_once_witness:
  "classify line_forwarding = ForwardingFrom \<and> classify line_forwarding6 = ForwardingFrom
   \<and> \<not> initialized (pods started0 0)
   \<and> initialized (pods (processKubectlLog line_forwarding 0 0 started0) 0)
   \<and> processKubectlLog line_forwarding6 0 0 (processKubectlLog line_forwarding 0 0 started0)
       = processKubectlLog line_forwarding 0 0 started0"
proof -
  have h: "classify line_forwarding = ForwardingFrom" "classify line_forwarding6 = ForwardingFrom"
    "\<not> initialized (pods started0 0)"
    by (simp_all add: classify_lines started0_fields)
  from forwarding_established_once [OF h, of 0 0] h show ?thesis
    by blast
qed

section \<open>Exit codes\<close>

text \<open>
  C2, as stated, fails: the permission-denied branch calls \<open>process.exit(0)\<close>. In the
  run with one pod, the line \<open>listen tcp4 127.0.0.1:80: bind: permission denied\<close>
  printed by the tunnel ends the run with exit code 0.
\<close>

theorem permission_denied_exits_zero:
  "exited started0 = None \<and> classify line_denied = PermissionDenied
   \<and> exited (step (Data 0 line_denied) started0) = Some 0"
  by (simp add: cb_defs started0_fields classify_lines process_exit_def)

text \<open>
  C2, amended. A run that ends because of a bind-permission error, or because a silent
  \<open>getPodId\<close> finds nothing when the attempt counter has reached the ceiling
  \<open>maxAttempt\<close>, exits with exit code 0.
\<close>

theorem fatal_exits_with_code_zero:
  "(classify logLine = PermissionDenied \<longrightarrow>
      exited (processKubectlLog logLine r child s) = Some 0)
   \<and> (getPodId (namespace s) rawPods (name (pods s r)) True = Inr None
        \<and> maxAttempt \<le> attempt \<longrightarrow>
      exited (tryReinitPod_cb r attempt (CbOk rawPods) s) = Some 0)"
  by (simp add: processKubectlLog_def tryReinitPod_cb_def reinit_not_found_def process_exit_def)

theorem fatal_exits_with_code_zero_witness:
  "classify line_denied = PermissionDenied
   \<and> exited (processKubectlLog line_denied 0 0 started0) = Some 0
   \<and> getPodId (namespace started0) table_empty (name (pods started0 0)) True = Inr None
   \<and> maxAttempt \<le> 20
   \<and> exited (tryReinitPod_cb 0 20 (CbOk table_empty) started0) = Some 0"
  using fatal_exits_with_code_zero [of line_denied 0 0 started0 table_empty 20]
  by (simp add: classify_lines started0_fields getPodId_table_empty maxAttempt_def)

section \<open>A network error in the cluster query\<close>

text \<open>
  On a network error \<open>getPods\<close> itself walks over \<open>runningPods\<close> before it calls back:
  every pod that is \<open>initialized\<close> loses the flag and has its process killed.
\<close>

lemma forEach_network_error:
  assumes "\<forall>r \<in> set rs. initialized (pods s r) \<longrightarrow> childProcess (pods s r) \<noteq> None"
    and "exited s = None"
  shows "forEach network_error_pod rs s =
    s\<lparr>pods := (\<lambda>r. if r \<in> set rs then (pods s r)\<lparr>initialized := False\<rparr> else pods s r),
      procs := (\<lambda>c. if status (procs s c) = Live
                        \<and> (\<exists>r \<in> set rs. initialized (pods s r) \<and> childProcess (pods s r) = Some c)
                      then (procs s c)\<lparr>status := Signalled\<rparr> else procs s c)\<rparr>"
  using assms
proof (induction rs arbitrary: s)
  case Nil
  then show ?case by simp
next
  case (Cons r rs)
  show ?case
  proof (cases "initialized (pods s r)")
    case False
    then have t: "network_error_pod r s = s"
      by (simp add: network_error_pod_def)
    have "forEach network_error_pod (r # rs) s = forEach network_error_pod rs s"
      using t Cons.prems by simp
    also have "\<dots> = s\<lparr>pods := (\<lambda>r. if r \<in> set rs then (pods s r)\<lparr>initialized := False\<rparr> else pods s r),
      procs := (\<lambda>c. if status (procs s c) = Live
                        \<and> (\<exists>r \<in> set rs. initialized (pods s r) \<and> childProcess (pods s r) = Some c)
                      then (procs s c)\<lparr>status := Signalled\<rparr> else procs s c)\<rparr>"
      using Cons.IH [of s] Cons.prems by simp
    also have "\<dots> = s\<lparr>pods := (\<lambda>r'. if r' \<in> set (r # rs) then (pods s r')\<lparr>initialized := False\<rparr> else pods s r'),
      procs := (\<lambda>c. if status (procs s c) = Live
                        \<and> (\<exists>r' \<in> set (r # rs). initialized (pods s r') \<and> childProcess (pods s r') = Some c)
                      then (procs s c)\<lparr>status := Signalled\<rparr> else procs s c)\<rparr>"
    proof -
      have A: "(\<lambda>r'. if r' \<in> set rs then (pods s r')\<lparr>initialized := False\<rparr> else pods s r')
          = (\<lambda>r'. if r' \<in> set (r # rs) then (pods s r')\<lparr>initialized := False\<rparr> else pods s r')"
        using False by (auto simp: fun_eq_iff)
      have B: "(\<lambda>c'. if status (procs s c') = Live
                        \<and> (\<exists>r' \<in> set rs. initialized (pods s r') \<and> childProcess (pods s r') = Some c')
                      then (procs s c')\<lparr>status := Signalled\<rparr> else procs s c')
          = (\<lambda>c'. if status (procs s c') = Live
                        \<and> (\<exists>r' \<in> set (r # rs). initialized (pods s r') \<and> childProcess (pods s r') = Some c')
                      then (procs s c')\<lparr>status := Signalled\<rparr> else procs s c')"
        using False by (auto simp: fun_eq_iff)
      show ?thesis
        by (simp only: A B)
    qed
    finally show ?thesis .
  next
    case True
    with Cons.prems obtain c where c: "childProcess (pods s r) = Some c"
      by auto
    define t where "t = network_error_pod r s"
    have t: "t = kill c (update_pod r (\<lambda>p. p\<lparr>initialized := False\<rparr>) s)"
      using True c by (simp add: t_def network_error_pod_def kill_child_def update_pod_def)
    have tp: "pods t = (pods s)(r := (pods s r)\<lparr>initialized := False\<rparr>)"
      and tq: "procs t = (if status (procs s c) = Live then (procs s)(c := (procs s c)\<lparr>status := Signalled\<rparr>) else procs s)"
      and te: "exited t = None"
      using Cons.prems by (simp_all add: t kill_def update_pod_def)
    have pre: "\<forall>r' \<in> set rs. initialized (pods t r') \<longrightarrow> childProcess (pods t r') \<noteq> None"
      using Cons.prems by (simp add: tp)
    have "forEach network_error_pod (r # rs) s = forEach network_error_pod rs t"
      using te by (simp add: t_def)
    also have "\<dots> = t\<lparr>pods := (\<lambda>r. if r \<in> set rs then (pods t r)\<lparr>initialized := False\<rparr> else pods t r),
      procs := (\<lambda>c. if status (procs t c) = Live
                        \<and> (\<exists>r \<in> set rs. initialized (pods t r) \<and> childProcess (pods t r) = Some c)
                      then (procs t c)\<lparr>status := Signalled\<rparr> else procs t c)\<rparr>"
      using Cons.IH [OF pre te] .
    also have "\<dots> = s\<lparr>pods := (\<lambda>r'. if r' \<in> set (r # rs) then (pods s r')\<lparr>initialized := False\<rparr> else pods s r'),
      procs := (\<lambda>c. if status (procs s c) = Live
                        \<and> (\<exists>r' \<in> set (r # rs). initialized (pods s r') \<and> childProcess (pods s r') = Some c)
                      then (procs s c)\<lparr>status := Signalled\<rparr> else procs s c)\<rparr>"
    proof -
      have ts: "t\<lparr>pods := X, procs := Y\<rparr> = s\<lparr>pods := X, procs := Y\<rparr>" for X Y
        by (simp add: t kill_def update_pod_def)
      have A: "(\<lambda>r'. if r' \<in> set rs then (pods t r')\<lparr>initialized := False\<rparr> else pods t r')
          = (\<lambda>r'. if r' \<in> set (r # rs) then (pods s r')\<lparr>initialized := False\<rparr> else pods s r')"
        by (auto simp: fun_eq_iff tp)
      have B: "(\<lambda>c'. if status (procs t c') = Live
                        \<and> (\<exists>r' \<in> set rs. initialized (pods t r') \<and> childProcess (pods t r') = Some c')
                      then (procs t c')\<lparr>status := Signalled\<rparr> else procs t c')
          = (\<lambda>c'. if status (procs s c') = Live
                        \<and> (\<exists>r' \<in> set (r # rs). initialized (pods s r') \<and> childProcess (pods s r') = Some c')
                      then (procs s c')\<lparr>status := Signalled\<rparr> else procs s c')"
        using True c by (auto simp: fun_eq_iff tp tq)
      show ?thesis
        by (simp only: ts A B)
    qed
    finally show ?thesis .
  qed
qed


text \<open>
  C1, as stated, fails: in the run with one pod that is forwarding, a health check whose
  query fails with \<open>i/o timeout\<close> leaves the session not \<open>initialized\<close> and its process
  killed.
\<close>

theorem network_error_kills_active_session:
  "initialized (pods ticking0 0) \<and> status (procs ticking0 0) = Live
   \<and> map_of (inflight ticking0) 1 = Some HealthCb \<and> is_network_error stderr_timeout
   \<and> \<not> initialized (pods (step (ExecDone 1 (ExecError stderr_timeout)) ticking0) 0)
   \<and> status (procs (step (ExecDone 1 (ExecError stderr_timeout)) ticking0) 0) = Signalled"
  by (simp add: cb_defs op_defs ticking0_fields active0_fields is_network_error_timeout)

text \<open>
  C1, amended. When the query of a health check fails with a network error (in a state
  where every \<open>initialized\<close> pod of \<open>runningPods\<close> has a child process, a part of
  \<open>wf_state\<close>), the callback of the health check does nothing: no reconnection is started, and no pod's
  \<open>restartingState\<close>, \<open>pod_id\<close>, \<open>excluded\<close>, \<open>childProcess\<close> or \<open>initInterval\<close> and no timer
  changes. The query itself counts the error in \<open>restartAttempt\<close>, clears \<open>initialized\<close>
  of every pod of \<open>runningPods\<close> and kills the live process of every such pod that was
  \<open>initialized\<close>; pods that were not \<open>initialized\<close> and all other processes are unchanged.
  The state after the callback is the state before with exactly these changes.
\<close>

theorem health_tick_network_error:
  assumes "exited s = None" and "map_of (inflight s) q = Some HealthCb"
    and "is_network_error stderr"
    and "\<forall>r \<in> set (runningPods s). initialized (pods s r) \<longrightarrow> childProcess (pods s r) \<noteq> None"
  shows "step (ExecDone q (ExecError stderr)) s =
      s\<lparr>inflight := filter (\<lambda>e. fst e \<noteq> q) (inflight s),
        restartAttempt := Suc (restartAttempt s),
        pods := (\<lambda>r. if r \<in> set (runningPods s) then (pods s r)\<lparr>initialized := False\<rparr>
                      else pods s r),
        procs := (\<lambda>c. if status (procs s c) = Live
                          \<and> (\<exists>r \<in> set (runningPods s).
                                initialized (pods s r) \<and> childProcess (pods s r) = Some c)
                        then (procs s c)\<lparr>status := Signalled\<rparr> else procs s c)\<rparr>"
proof -
  let ?s1 = "s\<lparr>inflight := filter (\<lambda>e. fst e \<noteq> q) (inflight s),
               restartAttempt := Suc (restartAttempt s)\<rparr>"
  have "step (ExecDone q (ExecError stderr)) s = forEach network_error_pod (runningPods s) ?s1"
    using assms by (simp add: step_def getPods_done_def callback_of_def healthCheck_cb_def Let_def)
  also have "\<dots> = ?s1\<lparr>pods := (\<lambda>r. if r \<in> set (runningPods s)
                                   then (pods ?s1 r)\<lparr>initialized := False\<rparr> else pods ?s1 r),
        procs := (\<lambda>c. if status (procs ?s1 c) = Live
                          \<and> (\<exists>r \<in> set (runningPods s).
                                initialized (pods ?s1 r) \<and> childProcess (pods ?s1 r) = Some c)
                        then (procs ?s1 c)\<lparr>status := Signalled\<rparr> else procs ?s1 c)\<rparr>"
    using assms by (intro forEach_network_error) simp_all
  finally show ?thesis
    by (simp cong: if_cong)
qed


theorem health_tick_network_error_witness:
  "exited ticking0 = None \<and> map_of (inflight ticking0) 1 = Some HealthCb
   \<and> is_network_error stderr_timeout
   \<and> runningPods ticking0 = [0] \<and> initialized (pods ticking0 0)
   \<and> childProcess (pods ticking0 0) = Some 0
   \<and> timers (step (ExecDone 1 (ExecError stderr_timeout)) ticking0) = timers ticking0
   \<and> inflight (step (ExecDone 1 (ExecError stderr_timeout)) ticking0) = []
   \<and> restartingState (pods (step (ExecDone 1 (ExecError stderr_timeout)) ticking0) 0)
       = restartingState (pods ticking0 0)
   \<and> \<not> initialized (pods (step (ExecDone 1 (ExecError stderr_timeout)) ticking0) 0)"
  using health_tick_network_error [of ticking0 1 stderr_timeout]
  by (simp add: ticking0_fields active0_fields is_network_error_timeout)

section \<open>Concrete runs of the health check\<close>

lemma forEach_single: "forEach f [r] s = f r s"
  by (simp add: Let_def)

lemma dead0_fields:
  "pods dead0 0 =
     \<lparr>name = ''myapp'', pod_from = ''8080'', pod_to = ''8080'', pod_namespace = None,
      pod_id = ''myapp-7f8c9'', childProcess = Some 0, initialized = False,
      restartingState = True, excluded = False, initInterval = None\<rparr>"
  "procs dead0 0 =
     \<lparr>owner = 0, argv = [''port-forward'', ''myapp-7f8c9'', ''8080:8080''], status = Signalled\<rparr>"
  "runningPods dead0 = [0]" "kubeConfig dead0 = None" "namespace dead0 = None"
  "restartAttempt dead0 = 0" "healthInterval dead0 = 5000"
  "next_pid dead0 = 1" "timers dead0 = []" "next_timer dead0 = 0"
  "inflight dead0 = [(2, ReinitCb 0 0)]" "next_req dead0 = 3"
  "interval dead0 = Some 5000" "exited dead0 = None"
  by (simp_all add: dead0_def cb_defs op_defs ticking0_fields active0_fields alive_table_empty
        forEach_single)

lemma twice0_fields:
  "exited twice0 = None"
  "inflight twice0 = [(2, ReinitCb 0 0), (4, ReinitCb 0 0)]"
  "timers twice0 = []"
  "runningPods twice0 = [0]" "next_pid twice0 = 1" "namespace twice0 = None"
  "kubeConfig twice0 = None" "restartAttempt twice0 = 0"
  "pods twice0 0 = pods dead0 0"
  "procs twice0 0 =
     \<lparr>owner = 0, argv = [''port-forward'', ''myapp-7f8c9'', ''8080:8080''], status = Closed\<rparr>"
  by (simp_all add: twice0_def cb_defs op_defs dead0_fields alive_table_empty forEach_single)

lemma both0_fields:
  "exited both0 = None"
  "inflight both0 = []" "timers both0 = []"
  "next_pid both0 = 3"
  "childProcess (pods both0 0) = Some 2"
  "procs both0 1 = \<lparr>owner = 0, argv = [''port-forward'', ''myapp-7f8c9'', ''8080:8080''], status = Live\<rparr>"
  "procs both0 2 = \<lparr>owner = 0, argv = [''port-forward'', ''myapp-7f8c9'', ''8080:8080''], status = Live\<rparr>"
  by (simp_all add: both0_def cb_defs op_defs twice0_fields dead0_fields getPodId_table_running)

lemma lone0_fields:
  "exited lone0 = None"
  "inflight lone0 = [(2, ReinitCb 0 0)]" "timers lone0 = []" "interval lone0 = Some 5000"
  "runningPods lone0 = [0]" "next_req lone0 = 3" "next_pid lone0 = 1"
  "pods lone0 0 =
     \<lparr>name = ''myapp'', pod_from = ''8080'', pod_to = ''8080'', pod_namespace = None,
      pod_id = ''myapp-7f8c9'', childProcess = Some 0, initialized = False,
      restartingState = True, excluded = False, initInterval = None\<rparr>"
  "status (procs lone0 0) = Closed" "restartAttempt lone0 = 0"
  by (simp_all add: lone0_def cb_defs op_defs active0_fields forEach_single)

lemma stuck0_fields:
  "exited stuck0 = None"
  "inflight stuck0 = []" "timers stuck0 = []" "interval stuck0 = Some 5000"
  "runningPods stuck0 = [0]" "next_req stuck0 = 3" "next_pid stuck0 = 1"
  "pods stuck0 0 = pods lone0 0"
  "status (procs stuck0 0) = Closed" "restartAttempt stuck0 = 1"
  by (simp_all add: stuck0_def cb_defs op_defs lone0_fields forEach_single
      is_network_error_timeout)

lemma stuck1_fields:
  "exited stuck1 = None"
  "inflight stuck1 = []" "timers stuck1 = []"
  "pods stuck1 0 = pods stuck0 0"
  "status (procs stuck1 0) = Closed" "next_pid stuck1 = 1"
  by (simp_all add: stuck1_def cb_defs op_defs stuck0_fields lone0_fields forEach_single)


text \<open>
  A network error in the query of a reconnection attempt, in any state: the pending
  query is consumed, and no timer and no query is added.
\<close>

lemma reinit_network_error:
  assumes "exited s = None" and "map_of (inflight s) q = Some (ReinitCb r a)"
    and "is_network_error stderr"
    and "\<forall>r \<in> set (runningPods s). initialized (pods s r) \<longrightarrow> childProcess (pods s r) \<noteq> None"
  shows "timers (step (ExecDone q (ExecError stderr)) s) = timers s
    \<and> inflight (step (ExecDone q (ExecError stderr)) s) = filter (\<lambda>e. fst e \<noteq> q) (inflight s)
    \<and> exited (step (ExecDone q (ExecError stderr)) s) = None"
proof -
  let ?s1 = "s\<lparr>inflight := filter (\<lambda>e. fst e \<noteq> q) (inflight s),
               restartAttempt := Suc (restartAttempt s)\<rparr>"
  have fe: "forEach network_error_pod (runningPods s) ?s1 =
      ?s1\<lparr>pods := (\<lambda>r. if r \<in> set (runningPods s)
                         then (pods ?s1 r)\<lparr>initialized := False\<rparr> else pods ?s1 r),
          procs := (\<lambda>c. if status (procs ?s1 c) = Live
                            \<and> (\<exists>r \<in> set (runningPods s).
                                  initialized (pods ?s1 r) \<and> childProcess (pods ?s1 r) = Some c)
                          then (procs ?s1 c)\<lparr>status := Signalled\<rparr> else procs ?s1 c)\<rparr>"
    using assms by (intro forEach_network_error) simp_all
  have "step (ExecDone q (ExecError stderr)) s = forEach network_error_pod (runningPods s) ?s1"
    using assms
    by (simp add: step_def getPods_done_def callback_of_def tryReinitPod_cb_def Let_def fe)
  then show ?thesis
    using assms(1) by (simp add: fe)
qed

text \<open>
  C4, the code at the failing input. The tunnel of the active session ends by itself and
  the next health check starts a reconnection (state \<open>lone0\<close>: one attempt pending, no
  timer). The query of that attempt fails with \<open>i/o timeout\<close>: the callback of
  \<open>tryReinitPod\<close> returns, no timer is scheduled and no query is pending (\<open>stuck0\<close>), so
  the attempt is never retried. The session keeps \<open>restartingState\<close>, so a later health
  check that sees the pod running skips it: nothing changes and nothing is spawned
  (\<open>stuck1\<close>).
\<close>

theorem reinit_network_error_stops_chain:
  "inflight lone0 = [(2, ReinitCb 0 0)] \<and> timers lone0 = [] \<and> exited lone0 = None
   \<and> is_network_error stderr_timeout
   \<and> exited stuck0 = None \<and> inflight stuck0 = [] \<and> timers stuck0 = []
   \<and> restartingState (pods stuck0 0)
   \<and> exited stuck1 = None \<and> inflight stuck1 = [] \<and> timers stuck1 = []
   \<and> pods stuck1 0 = pods stuck0 0 \<and> next_pid stuck1 = next_pid stuck0
   \<and> status (procs stuck1 0) = Closed"
  by (simp add: lone0_fields stuck0_fields stuck1_fields is_network_error_timeout)

text \<open>A health check skips a session whose \<open>restartingState\<close> is set.\<close>

lemma health_pod_skips_restarting:
  "restartingState (pods s r) \<Longrightarrow> health_pod rawPods r s = s"
  by (simp add: health_pod_def)

text \<open>
  C5, the code at the failing input. A health check detects the death of the session and
  starts a reconnection (\<open>dead0\<close>: \<open>restartingState\<close> set, one attempt pending). The
  \<open>'close'\<close> event of the tunnel it has killed clears \<open>restartingState\<close>; a second health
  check that completes while the first attempt is still pending therefore starts a
  second reconnection for the same session (\<open>twice0\<close>). When both attempts find the pod
  again, each spawns a tunnel: two live processes belong to the session (\<open>both0\<close>).
  The second entry point leaves \<open>restartingState\<close> alone in its \<open>'close'\<close> handler and
  clears it when \<open>tryReinitPod\<close> has found the pod.
\<close>

theorem two_reconnections_for_one_session:
  "restartingState (pods dead0 0) \<and> inflight dead0 = [(2, ReinitCb 0 0)]
   \<and> exited twice0 = None \<and> inflight twice0 = [(2, ReinitCb 0 0), (4, ReinitCb 0 0)]
   \<and> exited both0 = None
   \<and> owner (procs both0 1) = 0 \<and> status (procs both0 1) = Live
   \<and> owner (procs both0 2) = 0 \<and> status (procs both0 2) = Live
   \<and> childProcess (pods both0 0) = Some 2"
  using dead0_fields twice0_fields both0_fields by simp

section \<open>The reconnection protocol\<close>

text \<open>
  One step of a protocol: an attempt that finds nothing schedules the following one
  when the counter is below the ceiling and exits at the ceiling; an attempt that finds
  the pod spawns the tunnel; a timer that fires issues the query of its attempt.
\<close>

lemma map_of_fresh_append:
  "\<forall>e \<in> set xs. fst e < (k::nat) \<Longrightarrow> map_of (xs @ [(k, v)]) k = Some v"
  by (induction xs) auto

lemma attempt_fails:
  assumes "exited s = None" and "map_of (inflight s) q = Some (ReinitCb r a)"
    and "a < maxAttempt"
    and "getPodId (namespace s) rawPods (name (pods s r)) True = Inr None"
  shows "step (ExecDone q (ExecOk rawPods)) s =
     s\<lparr>inflight := filter (\<lambda>e. fst e \<noteq> q) (inflight s),
       restartAttempt := 0,
       timers := timers s @ [(next_timer s, attemptDuration, Retry r (Suc a))],
       next_timer := Suc (next_timer s),
       pods := (pods s)(r := (pods s r)\<lparr>initInterval := Some (next_timer s)\<rparr>)\<rparr>"
  using assms
  by (cases s) (simp add: step_def getPods_done_def callback_of_def tryReinitPod_cb_def
      reinit_not_found_def setTimeout_def update_pod_def)

lemma attempt_exhausted:
  assumes "exited s = None" and "map_of (inflight s) q = Some (ReinitCb r a)"
    and "maxAttempt \<le> a"
    and "getPodId (namespace s) rawPods (name (pods s r)) True = Inr None"
  shows "exited (step (ExecDone q (ExecOk rawPods)) s) = Some 0"
  using assms
  by (simp add: step_def getPods_done_def callback_of_def tryReinitPod_cb_def
      reinit_not_found_def process_exit_def)

lemma attempt_finds:
  assumes "exited s = None" and "map_of (inflight s) q = Some (ReinitCb r a)"
    and "getPodId (namespace s) rawPods (name (pods s r)) True = Inr (Some podId)"
    and "podId \<noteq> []"
  shows "step (ExecDone q (ExecOk rawPods)) s =
     s\<lparr>inflight := filter (\<lambda>e. fst e \<noteq> q) (inflight s),
       restartAttempt := 0,
       procs := (procs s)(next_pid s :=
          \<lparr>owner = r, argv = forward_args s ((pods s r)\<lparr>pod_id := podId\<rparr>), status = Live\<rparr>),
       next_pid := Suc (next_pid s),
       pods := (pods s)(r := (pods s r)\<lparr>pod_id := podId, childProcess := Some (next_pid s)\<rparr>)\<rparr>"
  using assms
  by (cases s) (simp add: step_def getPods_done_def callback_of_def tryReinitPod_cb_def
      portForwardPod_def update_pod_def forward_args_def Let_def)

lemma timer_fires:
  assumes "exited s = None" and "map_of (timers s) h = Some (d, Retry r a)"
  shows "step (TimerFire h) s =
     s\<lparr>timers := filter (\<lambda>e. fst e \<noteq> h) (timers s),
       inflight := inflight s @ [(next_req s, ReinitCb r a)],
       next_req := Suc (next_req s)\<rparr>"
  using assms
  by (simp add: step_def run_task_def tryReinitPod_def exec_getPods_def clearTimeout_def)


text \<open>The state of a protocol between two attempts, as the induction needs it.\<close>

lemma retry_round:
  assumes "exited s = None" and "fresh_ids s"
    and "map_of (timers s) h = Some (attemptDuration, Retry r a)"
    and "next_timer s = Suc h" and "next_req s = q"
    and "a < maxAttempt"
    and "getPodId (namespace s) rawPods (name (pods s r)) True = Inr None"
  shows "exited (run [TimerFire h, ExecDone q (ExecOk rawPods)] s) = None
    \<and> fresh_ids (run [TimerFire h, ExecDone q (ExecOk rawPods)] s)
    \<and> map_of (timers (run [TimerFire h, ExecDone q (ExecOk rawPods)] s)) (Suc h)
        = Some (attemptDuration, Retry r (Suc a))
    \<and> next_timer (run [TimerFire h, ExecDone q (ExecOk rawPods)] s) = Suc (Suc h)
    \<and> next_req (run [TimerFire h, ExecDone q (ExecOk rawPods)] s) = Suc q
    \<and> initInterval (pods (run [TimerFire h, ExecDone q (ExecOk rawPods)] s) r) = Some (Suc h)
    \<and> namespace (run [TimerFire h, ExecDone q (ExecOk rawPods)] s) = namespace s
    \<and> name (pods (run [TimerFire h, ExecDone q (ExecOk rawPods)] s) r) = name (pods s r)
    \<and> next_pid (run [TimerFire h, ExecDone q (ExecOk rawPods)] s) = next_pid s"
proof -
  define t where "t = step (TimerFire h) s"
  have t: "t = s\<lparr>timers := filter (\<lambda>e. fst e \<noteq> h) (timers s),
       inflight := inflight s @ [(q, ReinitCb r a)], next_req := Suc q\<rparr>"
    using timer_fires [OF assms(1,3)] assms(5) by (simp add: t_def)
  have tq: "map_of (inflight t) q = Some (ReinitCb r a)"
    using assms(2,5) by (simp add: t fresh_ids_def map_of_fresh_append del: map_of_append)
  have te: "exited t = None"
    using assms(1) by (simp add: t)
  have tn: "getPodId (namespace t) rawPods (name (pods t r)) True = Inr None"
    using assms(7) by (simp add: t)
  define u where "u = step (ExecDone q (ExecOk rawPods)) t"
  note u = attempt_fails [OF te tq assms(6) tn, folded u_def]
  have fresh_t: "\<forall>e \<in> set (timers t). fst e < Suc h"
    using assms(2,4) by (auto simp: t fresh_ids_def)
  have run: "run [TimerFire h, ExecDone q (ExecOk rawPods)] s = u"
    by (simp add: u_def t_def)
  have "map_of (timers u) (Suc h) = Some (attemptDuration, Retry r (Suc a))"
    using fresh_t assms(4) by (simp add: u t map_of_fresh_append del: map_of_append)
  moreover have "fresh_ids u"
    using assms(2,4,5) by (auto simp: u t fresh_ids_def less_Suc_eq)
  ultimately show ?thesis
    unfolding run using assms(1,4,5) by (simp add: u t)
qed


lemma run_append: "run (es @ fs) s = run fs (run es s)"
  by (induction es arbitrary: s) simp_all

lemma attempts_from_Suc:
  "attempts_from (Suc n) k q h tbl =
     attempts_from n k q h tbl @ [TimerFire (h + n), ExecDone (q + n) (ExecOk (tbl (k + n)))]"
  by (induction n arbitrary: k q h) simp_all

lemma attempts_Suc:
  "attempts (Suc (Suc n)) q h tbl =
     attempts (Suc n) q h tbl @ [TimerFire (h + n), ExecDone (Suc q + n) (ExecOk (tbl (Suc n)))]"
  by (simp add: attempts_def attempts_from_Suc del: attempts_from.simps)

lemma between_attempts_round:
  assumes "between_attempts s0 r a h q s" and "a < maxAttempt"
    and "getPodId (namespace s0) rawPods (name (pods s0 r)) True = Inr None"
  shows "between_attempts s0 r (Suc a) (Suc h) (Suc q)
           (run [TimerFire h, ExecDone q (ExecOk rawPods)] s)"
proof -
  from assms(1) have a: "exited s = None" "fresh_ids s"
    "map_of (timers s) h = Some (attemptDuration, Retry r a)"
    "next_timer s = Suc h" "next_req s = q"
    and env: "namespace s = namespace s0" "name (pods s r) = name (pods s0 r)"
      "next_pid s = next_pid s0"
    by (simp_all add: between_attempts_def)
  from assms(3) env have nf: "getPodId (namespace s) rawPods (name (pods s r)) True = Inr None"
    by simp
  from retry_round [OF a assms(2) nf] env show ?thesis
    unfolding between_attempts_def by simp
qed

lemma between_attempts_rounds:
  assumes "between_attempts s0 r a h q s" and "a + n \<le> maxAttempt"
    and "\<forall>k. a \<le> k \<and> k < a + n \<longrightarrow>
           getPodId (namespace s0) (tbl k) (name (pods s0 r)) True = Inr None"
  shows "between_attempts s0 r (a + n) (h + n) (q + n) (run (attempts_from n a q h tbl) s)"
  using assms
proof (induction n arbitrary: a h q s)
  case 0
  then show ?case by simp
next
  case (Suc n)
  from Suc.prems have "a < maxAttempt"
    and "getPodId (namespace s0) (tbl a) (name (pods s0 r)) True = Inr None"
    by simp_all
  from between_attempts_round [OF Suc.prems(1) this]
  have "between_attempts s0 r (Suc a) (Suc h) (Suc q)
          (run [TimerFire h, ExecDone q (ExecOk (tbl a))] s)" .
  from Suc.IH [OF this] Suc.prems(2,3) show ?case
    by simp
qed

lemma between_attempts_first:
  assumes "exited s = None" and "fresh_ids s"
    and "map_of (inflight s) q = Some (ReinitCb r 0)"
    and "next_req s = Suc q" and "next_timer s = h"
    and "getPodId (namespace s) rawPods (name (pods s r)) True = Inr None"
  shows "between_attempts s r (Suc 0) h (Suc q) (step (ExecDone q (ExecOk rawPods)) s)"
proof -
  have m: "0 < maxAttempt" by (simp add: maxAttempt_def)
  note u = attempt_fails [OF assms(1,3) m assms(6)]
  have "map_of (timers s @ [(h, attemptDuration, Retry r (Suc 0))]) h
          = Some (attemptDuration, Retry r (Suc 0))"
    using assms(2,5) by (intro map_of_fresh_append) (simp add: fresh_ids_def)
  moreover have "fresh_ids (step (ExecDone q (ExecOk rawPods)) s)"
    using assms(2,4,5) by (auto simp: u fresh_ids_def less_Suc_eq)
  ultimately show ?thesis
    using assms(1,4,5) by (simp add: between_attempts_def u del: map_of_append)
qed

lemma failed_attempts_wait:
  assumes "exited s = None" and "fresh_ids s"
    and "map_of (inflight s) q = Some (ReinitCb r 0)"
    and "next_req s = Suc q" and "next_timer s = h"
    and "1 \<le> n" and "n \<le> maxAttempt"
    and "\<forall>k<n. getPodId (namespace s) (tbl k) (name (pods s r)) True = Inr None"
  shows "between_attempts s r n (h + n - 1) (q + n) (run (attempts n q h tbl) s)"
proof -
  from assms(6) obtain m where n: "n = Suc m"
    by (cases n) simp_all
  have f: "between_attempts s r (Suc 0) h (Suc q) (step (ExecDone q (ExecOk (tbl 0))) s)"
    using assms n by (intro between_attempts_first) simp_all
  have "between_attempts s r (Suc 0 + m) (h + m) (Suc q + m)
          (run (attempts_from m (Suc 0) (Suc q) h tbl) (step (ExecDone q (ExecOk (tbl 0))) s))"
    using assms(7,8) n by (intro between_attempts_rounds [OF f]) simp_all
  then show ?thesis
    by (simp add: n attempts_def)
qed


lemma between_attempts_next:
  assumes "between_attempts s0 r a h q s"
  shows "exited (step (TimerFire h) s) = None"
    and "map_of (inflight (step (TimerFire h) s)) q = Some (ReinitCb r a)"
    and "namespace (step (TimerFire h) s) = namespace s0"
    and "name (pods (step (TimerFire h) s) r) = name (pods s0 r)"
    and "next_pid (step (TimerFire h) s) = next_pid s0"
proof -
  from assms have a: "exited s = None" "map_of (timers s) h = Some (attemptDuration, Retry r a)"
    and f: "fresh_ids s" "next_req s = q"
    and env: "namespace s = namespace s0" "name (pods s r) = name (pods s0 r)"
      "next_pid s = next_pid s0"
    by (simp_all add: between_attempts_def)
  note t = timer_fires [OF a]
  show "exited (step (TimerFire h) s) = None"
    using a by (simp add: t)
  show "map_of (inflight (step (TimerFire h) s)) q = Some (ReinitCb r a)"
    using f by (simp add: t fresh_ids_def map_of_fresh_append del: map_of_append)
  show "namespace (step (TimerFire h) s) = namespace s0"
    "name (pods (step (TimerFire h) s) r) = name (pods s0 r)"
    "next_pid (step (TimerFire h) s) = next_pid s0"
    using env by (simp_all add: t)
qed

lemma between_attempts_exhausted:
  assumes "between_attempts s0 r a h q s" and "maxAttempt \<le> a"
    and "getPodId (namespace s0) rawPods (name (pods s0 r)) True = Inr None"
  shows "exited (run [TimerFire h, ExecDone q (ExecOk rawPods)] s) = Some 0"
  using attempt_exhausted [OF between_attempts_next(1,2) [OF assms(1)] assms(2)]
    between_attempts_next(3,4) [OF assms(1)] assms(3)
  by simp

lemma between_attempts_found:
  assumes "between_attempts s0 r a h q s"
    and "getPodId (namespace s0) rawPods (name (pods s0 r)) True = Inr (Some podId)"
    and "podId \<noteq> []"
  shows "exited (run [TimerFire h, ExecDone q (ExecOk rawPods)] s) = None
    \<and> pod_id (pods (run [TimerFire h, ExecDone q (ExecOk rawPods)] s) r) = podId
    \<and> childProcess (pods (run [TimerFire h, ExecDone q (ExecOk rawPods)] s) r)
        = Some (next_pid s0)
    \<and> procs (run [TimerFire h, ExecDone q (ExecOk rawPods)] s) (next_pid s0)
        = \<lparr>owner = r,
           argv = forward_args (run [TimerFire h, ExecDone q (ExecOk rawPods)] s)
                    (pods (run [TimerFire h, ExecDone q (ExecOk rawPods)] s) r),
           status = Live\<rparr>"
proof -
  define t where "t = step (TimerFire h) s"
  note n = between_attempts_next [OF assms(1), folded t_def]
  from assms(2) n(3,4)
  have "getPodId (namespace t) rawPods (name (pods t r)) True = Inr (Some podId)"
    by simp
  from attempt_finds [OF n(1,2) this assms(3)] n(1,5) show ?thesis
    by (simp add: t_def [symmetric] forward_args_def)
qed

lemma first_attempt_found:
  assumes "exited s = None" and "map_of (inflight s) q = Some (ReinitCb r 0)"
    and "getPodId (namespace s) rawPods (name (pods s r)) True = Inr (Some podId)"
    and "podId \<noteq> []"
  shows "exited (step (ExecDone q (ExecOk rawPods)) s) = None
    \<and> pod_id (pods (step (ExecDone q (ExecOk rawPods)) s) r) = podId
    \<and> childProcess (pods (step (ExecDone q (ExecOk rawPods)) s) r) = Some (next_pid s)
    \<and> procs (step (ExecDone q (ExecOk rawPods)) s) (next_pid s)
        = \<lparr>owner = r,
           argv = forward_args (step (ExecDone q (ExecOk rawPods)) s)
                    (pods (step (ExecDone q (ExecOk rawPods)) s) r),
           status = Live\<rparr>"
  using assms(1) by (simp add: attempt_finds [OF assms] forward_args_def)

lemma failed_attempts_exit:
  assumes "exited s = None" and "fresh_ids s"
    and "map_of (inflight s) q = Some (ReinitCb r 0)"
    and "next_req s = Suc q" and "next_timer s = h"
    and "\<forall>k\<le>maxAttempt. getPodId (namespace s) (tbl k) (name (pods s r)) True = Inr None"
  shows "exited (run (attempts (Suc maxAttempt) q h tbl) s) = Some 0"
proof -
  obtain m where m: "maxAttempt = Suc m"
    by (simp add: maxAttempt_def)
  have b: "between_attempts s r maxAttempt (h + maxAttempt - 1) (q + maxAttempt)
             (run (attempts maxAttempt q h tbl) s)"
    using assms by (intro failed_attempts_wait) (simp_all add: maxAttempt_def)
  have "exited (run [TimerFire (h + maxAttempt - 1), ExecDone (q + maxAttempt) (ExecOk (tbl maxAttempt))]
           (run (attempts maxAttempt q h tbl) s)) = Some 0"
    using assms(6) by (intro between_attempts_exhausted [OF b]) simp_all
  then show ?thesis
    by (simp add: m attempts_Suc run_append del: run.simps)
qed

lemma later_attempt_found:
  assumes "exited s = None" and "fresh_ids s"
    and "map_of (inflight s) q = Some (ReinitCb r 0)"
    and "next_req s = Suc q" and "next_timer s = h"
    and "n \<le> maxAttempt"
    and "\<forall>k<n. getPodId (namespace s) (tbl k) (name (pods s r)) True = Inr None"
    and "getPodId (namespace s) (tbl n) (name (pods s r)) True = Inr (Some podId)"
    and "podId \<noteq> []"
  shows "exited (run (attempts (Suc n) q h tbl) s) = None
    \<and> pod_id (pods (run (attempts (Suc n) q h tbl) s) r) = podId
    \<and> childProcess (pods (run (attempts (Suc n) q h tbl) s) r) = Some (next_pid s)
    \<and> procs (run (attempts (Suc n) q h tbl) s) (next_pid s)
        = \<lparr>owner = r,
           argv = forward_args (run (attempts (Suc n) q h tbl) s)
                    (pods (run (attempts (Suc n) q h tbl) s) r),
           status = Live\<rparr>"
proof (cases n)
  case 0
  with first_attempt_found [OF assms(1,3), of "tbl 0" podId] assms(8,9) show ?thesis
    by (simp add: attempts_def)
next
  case (Suc m)
  have b: "between_attempts s r n (h + n - 1) (q + n) (run (attempts n q h tbl) s)"
    using assms Suc by (intro failed_attempts_wait) simp_all
  from between_attempts_found [OF b assms(8,9)] show ?thesis
    by (simp add: Suc attempts_Suc run_append del: run.simps)
qed


lemma health_pod_inflight:
  "inflight (health_pod rawPods r s) = inflight s
   \<or> inflight (health_pod rawPods r s) = inflight s @ [(next_req s, ReinitCb r 0)]"
  by (simp add: health_pod_def kill_child_def uncaught_def process_exit_def kill_def
      update_pod_def clearTimeout_def tryReinitPod_def exec_getPods_def Let_def
      split: option.splits)

lemma new_protocol_starts_at_zero:
  assumes "e \<in> set (inflight (health_pod rawPods r s))" and "e \<notin> set (inflight s)"
  shows "snd e = ReinitCb r 0"
  using health_pod_inflight [of rawPods r s] assms by auto





text \<open>
  Other events leave a pending query alone, and they leave a pending timer alone or
  remove it.
\<close>

lemma holds_process_exit [simp]: "holds q k (process_exit code s) = holds q k s"
  by (simp add: holds_def process_exit_def)















lemma keeps_process_exit [simp]: "keeps h x (process_exit code s) = keeps h x s"
  by (simp add: keeps_def process_exit_def)




























text \<open>
  A protocol that runs undisturbed. Take a reconnection protocol for pod \<open>r\<close> whose first
  attempt is pending (its query is \<open>q\<close>, the last one issued, in a state with fresh
  handles), let nothing else happen between its attempts, and let \<open>tbl k\<close> be the table
  returned to attempt \<open>k\<close>, counted from 0.
  \<^item> While the silent \<open>getPodId\<close> finds nothing: after \<open>n\<close> failed attempts, for \<open>n\<close> from
    1 to 20, the run is alive and the next attempt is scheduled, with the counter at \<open>n\<close>.
  \<^item> When 21 attempts have failed, the run has exited, with exit code 0.
  \<^item> When the attempt after \<open>n \<le> 20\<close> failed ones finds the instance \<open>podId\<close>, the run is
    alive, \<open>pod_id\<close> is \<open>podId\<close> and a new live tunnel process for it is the pod's
    \<open>childProcess\<close>.
\<close>

lemma undisturbed_protocol:
  assumes "exited s = None" and "fresh_ids s"
    and "map_of (inflight s) q = Some (ReinitCb r 0)"
    and "next_req s = Suc q" and "next_timer s = h"
  shows "(\<forall>n. 1 \<le> n \<and> n \<le> 20
            \<and> (\<forall>k<n. getPodId (namespace s) (tbl k) (name (pods s r)) True = Inr None) \<longrightarrow>
            retry_scheduled r n (h + n - 1) (run (attempts n q h tbl) s))
    \<and> ((\<forall>k\<le>20. getPodId (namespace s) (tbl k) (name (pods s r)) True = Inr None) \<longrightarrow>
          exited (run (attempts 21 q h tbl) s) = Some 0)
    \<and> (\<forall>n podId. n \<le> 20
            \<and> (\<forall>k<n. getPodId (namespace s) (tbl k) (name (pods s r)) True = Inr None)
            \<and> getPodId (namespace s) (tbl n) (name (pods s r)) True = Inr (Some podId)
            \<and> podId \<noteq> [] \<longrightarrow>
          exited (run (attempts (Suc n) q h tbl) s) = None
          \<and> pod_id (pods (run (attempts (Suc n) q h tbl) s) r) = podId
          \<and> childProcess (pods (run (attempts (Suc n) q h tbl) s) r) = Some (next_pid s)
          \<and> procs (run (attempts (Suc n) q h tbl) s) (next_pid s)
              = \<lparr>owner = r,
                 argv = forward_args (run (attempts (Suc n) q h tbl) s)
                          (pods (run (attempts (Suc n) q h tbl) s) r),
                 status = Live\<rparr>)
    \<and> (\<forall>u rawPods e. e \<in> set (inflight (health_pod rawPods r u)) \<and> e \<notin> set (inflight u) \<longrightarrow>
          snd e = ReinitCb r 0)
    \<and> attemptDuration = 5000"
proof -
  have a: "retry_scheduled r n (h + n - 1) (run (attempts n q h tbl) s)"
    if "1 \<le> n \<and> n \<le> 20
        \<and> (\<forall>k<n. getPodId (namespace s) (tbl k) (name (pods s r)) True = Inr None)" for n
  proof -
    have "between_attempts s r n (h + n - 1) (q + n) (run (attempts n q h tbl) s)"
      using that by (intro failed_attempts_wait assms) (simp_all add: maxAttempt_def)
    then show ?thesis
      by (simp add: between_attempts_def retry_scheduled_def)
  qed
  then have A: "\<forall>n. 1 \<le> n \<and> n \<le> 20
            \<and> (\<forall>k<n. getPodId (namespace s) (tbl k) (name (pods s r)) True = Inr None) \<longrightarrow>
            retry_scheduled r n (h + n - 1) (run (attempts n q h tbl) s)"
    by blast
  have b: "exited (run (attempts 21 q h tbl) s) = Some 0"
    if "\<forall>k\<le>20. getPodId (namespace s) (tbl k) (name (pods s r)) True = Inr None"
    using failed_attempts_exit [OF assms, of tbl] that by (simp add: maxAttempt_def)
  then have B: "(\<forall>k\<le>20. getPodId (namespace s) (tbl k) (name (pods s r)) True = Inr None) \<longrightarrow>
          exited (run (attempts 21 q h tbl) s) = Some 0"
    by blast
  have c: "exited (run (attempts (Suc n) q h tbl) s) = None
          \<and> pod_id (pods (run (attempts (Suc n) q h tbl) s) r) = podId
          \<and> childProcess (pods (run (attempts (Suc n) q h tbl) s) r) = Some (next_pid s)
          \<and> procs (run (attempts (Suc n) q h tbl) s) (next_pid s)
              = \<lparr>owner = r,
                 argv = forward_args (run (attempts (Suc n) q h tbl) s)
                          (pods (run (attempts (Suc n) q h tbl) s) r),
                 status = Live\<rparr>"
    if "n \<le> 20
            \<and> (\<forall>k<n. getPodId (namespace s) (tbl k) (name (pods s r)) True = Inr None)
            \<and> getPodId (namespace s) (tbl n) (name (pods s r)) True = Inr (Some podId)
            \<and> podId \<noteq> []" for n podId
    using that by (intro later_attempt_found assms) (simp_all add: maxAttempt_def)
  then have C: "\<forall>n podId. n \<le> 20
            \<and> (\<forall>k<n. getPodId (namespace s) (tbl k) (name (pods s r)) True = Inr None)
            \<and> getPodId (namespace s) (tbl n) (name (pods s r)) True = Inr (Some podId)
            \<and> podId \<noteq> [] \<longrightarrow>
          exited (run (attempts (Suc n) q h tbl) s) = None
          \<and> pod_id (pods (run (attempts (Suc n) q h tbl) s) r) = podId
          \<and> childProcess (pods (run (attempts (Suc n) q h tbl) s) r) = Some (next_pid s)
          \<and> procs (run (attempts (Suc n) q h tbl) s) (next_pid s)
              = \<lparr>owner = r,
                 argv = forward_args (run (attempts (Suc n) q h tbl) s)
                          (pods (run (attempts (Suc n) q h tbl) s) r),
                 status = Live\<rparr>"
    by blast
  have d: "snd e = ReinitCb r 0"
    if "e \<in> set (inflight (health_pod rawPods r u)) \<and> e \<notin> set (inflight u)" for u rawPods e
    using that new_protocol_starts_at_zero by blast
  then have D: "\<forall>u rawPods e. e \<in> set (inflight (health_pod rawPods r u)) \<and> e \<notin> set (inflight u) \<longrightarrow>
          snd e = ReinitCb r 0"
    by blast
  show ?thesis
    by (intro conjI A B C D) (simp add: attemptDuration_def)
qed








section \<open>Exclusion of a session whose port is in use\<close>

text \<open>Only \<open>processKubectlLog\<close> changes \<open>runningPods\<close>, and it only removes from it.\<close>

lemmas prim_defs = kill_child_def uncaught_def process_exit_def kill_def update_pod_def
  clearTimeout_def setTimeout_def tryReinitPod_def exec_getPods_def healthCheck_def
  portForwardPod_def close_handler_def network_error_pod_def reinit_not_found_def

lemma forEach_runningPods:
  assumes "\<And>r t. runningPods (f r t) = runningPods t"
  shows "runningPods (forEach f rs s) = runningPods s"
  by (induction rs arbitrary: s) (simp_all add: Let_def assms)

lemma network_error_pod_runningPods [simp]:
  "runningPods (network_error_pod r s) = runningPods s"
  by (simp add: prim_defs split: option.splits)

lemma health_pod_runningPods [simp]: "runningPods (health_pod rawPods r s) = runningPods s"
  by (simp add: health_pod_def prim_defs Let_def split: option.splits)

lemma healthCheck_cb_runningPods [simp]: "runningPods (healthCheck_cb a s) = runningPods s"
  by (simp add: healthCheck_cb_def forEach_runningPods split: cb_args.splits)

lemma tryReinitPod_cb_runningPods [simp]:
  "runningPods (tryReinitPod_cb r n a s) = runningPods s"
  by (simp add: tryReinitPod_cb_def prim_defs Let_def split: cb_args.splits sum.splits option.splits)

lemma resolve_ids_runningPods [simp]:
  "runningPods (snd (resolve_ids rawPods rs s)) = runningPods s"
  by (induction rs arbitrary: s) (simp_all add: update_pod_def split: sum.splits option.splits)

lemma portForwardPod_runningPods [simp]: "runningPods (portForwardPod r s) = runningPods s"
  by (simp add: prim_defs Let_def)

lemma formalInit_cb_runningPods [simp]: "runningPods (formalInit_cb a s) = runningPods s"
proof (cases a)
  case CbError
  then show ?thesis by (simp add: formalInit_cb_def prim_defs)
next
  case (CbOk rawPods)
  obtain e t where r: "resolve_ids rawPods (runningPods s) s = (e, t)"
    by (cases "resolve_ids rawPods (runningPods s) s")
  then have "runningPods t = runningPods s"
    using resolve_ids_runningPods [of rawPods "runningPods s" s] by simp
  then show ?thesis
    by (cases e)
      (simp_all add: CbOk formalInit_cb_def r forEach_runningPods Let_def process_exit_def)
qed

lemma callback_of_runningPods [simp]: "runningPods (callback_of k a s) = runningPods s"
  by (cases k) (simp_all add: callback_of_def)

lemma forEach_network_error_pod_runningPods [simp]:
  "runningPods (forEach network_error_pod rs s) = runningPods s"
  by (rule forEach_runningPods) simp

lemma getPods_done_runningPods:
  assumes "\<And>a t. runningPods (cb a t) = runningPods t"
  shows "runningPods (getPods_done cb res s) = runningPods s"
  by (cases res) (simp_all add: getPods_done_def assms Let_def prim_defs)

lemma processKubectlLog_runningPods:
  "set (runningPods (processKubectlLog logLine r child s)) \<subseteq> set (runningPods s)"
  by (cases "classify logLine") (auto simp: processKubectlLog_def prim_defs Let_def)

lemma step_runningPods: "set (runningPods (step e s)) \<subseteq> set (runningPods s)"
proof (cases e)
  case (Data c logLine)
  then show ?thesis
    using processKubectlLog_runningPods by (simp add: step_def)
next
  case (ExecDone q res)
  then show ?thesis
    by (simp add: step_def getPods_done_runningPods split: option.splits)
qed (simp_all add: step_def run_task_def prim_defs split: option.splits task.splits)

lemma run_runningPods: "set (runningPods (run evs s)) \<subseteq> set (runningPods s)"
proof (induction evs arbitrary: s)
  case Nil
  then show ?case by simp
next
  case (Cons e evs)
  from Cons [of "step e s"] step_runningPods [of e s] show ?case
    by auto
qed


lemma spares_refl [simp]: "spares r s s"
  by (simp add: spares_def)

lemma spares_trans: "spares r s t \<Longrightarrow> spares r t u \<Longrightarrow> spares r s u"
  unfolding spares_def
  by (intro conjI ballI allI impI; (elim conjE)?) (simp_all, (metis le_trans less_le_trans)+)


lemma spares_process_exit [simp]: "spares r s (process_exit code s)"
  by (simp add: spares_def process_exit_def)

lemma spares_network_error_pod [simp]: "spares r s (network_error_pod r' s)"
  by (auto simp: spares_def network_error_pod_def kill_child_def uncaught_def process_exit_def
      kill_def update_pod_def split: option.splits)

lemma spares_health_pod: "r' \<noteq> r \<Longrightarrow> spares r s (health_pod rawPods r' s)"
  by (auto simp: spares_def health_pod_def kill_child_def uncaught_def process_exit_def
      kill_def update_pod_def clearTimeout_def tryReinitPod_def exec_getPods_def Let_def
      concerns_def split: option.splits)

lemma spares_portForwardPod: "r' \<noteq> r \<Longrightarrow> spares r s (portForwardPod r' s)"
  by (auto simp: spares_def portForwardPod_def update_pod_def Let_def less_Suc_eq)

lemma spares_tryReinitPod_cb: "r' \<noteq> r \<Longrightarrow> spares r s (tryReinitPod_cb r' n a s)"
  by (auto simp: spares_def tryReinitPod_cb_def reinit_not_found_def portForwardPod_def
      setTimeout_def uncaught_def process_exit_def update_pod_def Let_def less_Suc_eq
      retries_def split: cb_args.splits sum.splits option.splits)

lemma spares_resolve_ids: "spares r s (snd (resolve_ids rawPods rs s))"
proof (induction rs arbitrary: s)
  case Nil
  then show ?case by simp
next
  case (Cons r' rs)
  have u: "spares r s (update_pod r' (\<lambda>p. p\<lparr>pod_id := i\<rparr>) s)" for i
    by (simp add: spares_def update_pod_def)
  show ?case
    using Cons [of s] spares_trans [OF u Cons]
    by (simp split: sum.splits option.splits)
qed

lemma spares_forEach:
  assumes "\<And>r' t. r' \<in> set rs \<Longrightarrow> spares r t (f r' t)"
  shows "spares r s (forEach f rs s)"
  using assms
proof (induction rs arbitrary: s)
  case Nil
  then show ?case by simp
next
  case (Cons r' rs)
  have 1: "spares r s (f r' s)"
    using Cons.prems by simp
  have 2: "spares r (f r' s) (forEach f rs (f r' s))"
    using Cons.prems by (intro Cons.IH) simp
  from 1 spares_trans [OF 1 2] show ?case
    by (simp add: Let_def)
qed

lemma spares_healthCheck_cb:
  "r \<notin> set (runningPods s) \<Longrightarrow> spares r s (healthCheck_cb a s)"
  by (cases a) (auto simp: healthCheck_cb_def intro!: spares_forEach spares_health_pod)

lemma spares_formalInit_cb:
  assumes "r \<notin> set (runningPods s)"
  shows "spares r s (formalInit_cb a s)"
proof (cases a)
  case CbError
  then show ?thesis
    by (simp add: formalInit_cb_def spares_def setTimeout_def retries_def)
next
  case (CbOk rawPods)
  obtain e t where rt: "resolve_ids rawPods (runningPods s) s = (e, t)"
    by (cases "resolve_ids rawPods (runningPods s) s")
  have st: "spares r s t" and rp: "runningPods t = runningPods s"
    using spares_resolve_ids [of r s rawPods "runningPods s"]
      resolve_ids_runningPods [of rawPods "runningPods s" s] rt by simp_all
  show ?thesis
  proof (cases e)
    case (Some err)
    with spares_trans [OF st spares_process_exit [of r t None]] show ?thesis
      by (simp add: CbOk formalInit_cb_def rt)
  next
    case None
    let ?u = "forEach portForwardPod (runningPods t) t"
    have su: "spares r t ?u"
      using assms rp by (intro spares_forEach spares_portForwardPod) auto
    have "spares r ?u (?u\<lparr>interval := Some (healthInterval ?u)\<rparr>)"
      by (simp add: spares_def)
    from spares_trans [OF spares_trans [OF st su] this] show ?thesis
      by (simp add: CbOk formalInit_cb_def rt None Let_def)
  qed
qed

lemma spares_getPods_done:
  assumes "\<And>a t. r \<notin> set (runningPods t) \<Longrightarrow> spares r t (cb a t)"
    and "r \<notin> set (runningPods s)"
  shows "spares r s (getPods_done cb res s)"
proof (cases res)
  case (ExecOk stdout)
  let ?t = "if 0 < restartAttempt s then s\<lparr>restartAttempt := 0\<rparr> else s"
  have 1: "spares r s ?t"
    by (simp add: spares_def)
  have 2: "spares r ?t (cb (CbOk stdout) ?t)"
    using assms by simp
  from spares_trans [OF 1 2] show ?thesis
    by (simp add: ExecOk getPods_done_def)
next
  case (ExecError stderr)
  let ?s1 = "s\<lparr>restartAttempt := Suc (restartAttempt s)\<rparr>"
  let ?t = "forEach network_error_pod (runningPods s) ?s1"
  have 1: "spares r s ?s1"
    by (simp add: spares_def)
  have 2: "spares r ?s1 ?t"
    by (intro spares_forEach) simp
  have 3: "spares r ?t (cb CbError ?t)"
    using assms by simp
  note st = spares_trans [OF 1 2]
  from st spares_trans [OF st 3] show ?thesis
    by (simp add: ExecError getPods_done_def Let_def uncaught_def)
qed

lemma spares_processKubectlLog: "spares r s (processKubectlLog logLine r' child s)"
  by (cases "classify logLine")
    (auto simp: spares_def processKubectlLog_def process_exit_def kill_def update_pod_def
      healthCheck_def exec_getPods_def Let_def concerns_def)


lemma spares_step:
  assumes "idle r s"
  shows "spares r s (step e s)"
proof (cases "exited s = None")
  case False
  then show ?thesis by (simp add: step_def)
next
  case alive: True
  from assms have out: "r \<notin> set (runningPods s)"
    and nq: "\<And>q k. (q, k) \<in> set (inflight s) \<Longrightarrow> \<not> concerns r k"
    and nt: "\<And>h d k. (h, d, k) \<in> set (timers s) \<Longrightarrow> \<not> retries r k"
    by (auto simp: idle_def unattended_def)
  show ?thesis
  proof (cases e)
    case Interval
    then show ?thesis
      by (auto simp: step_def spares_def healthCheck_def exec_getPods_def concerns_def
          split: option.splits)
  next
    case (ExecDone q res)
    show ?thesis
    proof (cases "map_of (inflight s) q")
      case None
      then show ?thesis by (simp add: step_def ExecDone)
    next
      case (Some k)
      let ?s1 = "s\<lparr>inflight := filter (\<lambda>e. fst e \<noteq> q) (inflight s)\<rparr>"
      from Some have "\<not> concerns r k"
        using nq map_of_SomeD by fastforce
      then have cb: "spares r t (callback_of k a t)" if "r \<notin> set (runningPods t)" for a t
        using that
        by (cases k)
          (simp_all add: callback_of_def concerns_def spares_healthCheck_cb
            spares_tryReinitPod_cb spares_formalInit_cb)
      have 1: "spares r s ?s1"
        by (simp add: spares_def)
      have 2: "spares r ?s1 (getPods_done (callback_of k) res ?s1)"
        using out by (intro spares_getPods_done cb) simp_all
      from spares_trans [OF 1 2] alive show ?thesis
        by (simp add: step_def ExecDone Some)
    qed
  next
    case (TimerFire h)
    show ?thesis
    proof (cases "map_of (timers s) h")
      case None
      then show ?thesis by (simp add: step_def TimerFire)
    next
      case (Some dk)
      obtain d k where dk: "dk = (d, k)" by (cases dk)
      from Some dk have "\<not> retries r k"
        using nt map_of_SomeD by fastforce
      then show ?thesis
        using alive
        by (cases k)
          (auto simp: step_def TimerFire Some dk run_task_def tryReinitPod_def exec_getPods_def
            clearTimeout_def spares_def concerns_def retries_def)
    qed
  next
    case (Data c logLine)
    then show ?thesis
      by (simp add: step_def spares_processKubectlLog)
  next
    case (Close c)
    then show ?thesis
      by (auto simp: step_def spares_def close_handler_def update_pod_def)
  next
    case (Signal g)
    then show ?thesis
      by (simp add: step_def)
  qed
qed

lemma idle_spares:
  assumes "idle r s" and "spares r s t" and "set (runningPods t) \<subseteq> set (runningPods s)"
  shows "idle r t"
  using assms unfolding idle_def unattended_def spares_def by blast

lemma run_spares: "idle r s \<Longrightarrow> spares r s (run evs s) \<and> idle r (run evs s)"
proof (induction evs arbitrary: s)
  case Nil
  then show ?case by simp
next
  case (Cons e evs)
  have 1: "spares r s (step e s)"
    using Cons.prems by (rule spares_step)
  have 2: "idle r (step e s)"
    using Cons.prems 1 step_runningPods by (rule idle_spares)
  from Cons.IH [OF 2] spares_trans [OF 1] show ?case
    by simp
qed

text \<open>
  What the exclusion achieves. Let a process \<open>child\<close> of a session \<open>r\<close> that is not yet
  excluded print a line classified as port-already-in-use. Then the session is marked
  \<open>excluded\<close>, that process is no longer live, and the session is removed from
  \<open>runningPods\<close>; the line starts nothing (no query, no timer, no process), and the run
  exits with code 0 when \<open>runningPods\<close> has become empty and goes on otherwise. Whatever
  happens afterwards, the session is never in \<open>runningPods\<close> again and no health check
  starts anything for it; and when no reconnection attempt for it was pending at that
  moment, none is ever pending later, its \<open>childProcess\<close> stays what it was and no
  process is ever spawned for it.
\<close>

lemma address_in_use_excludes:
  assumes "classify logLine = AddressInUse" and "\<not> excluded (pods s r)"
  shows "excluded (pods (processKubectlLog logLine r child s) r)
    \<and> status (procs (processKubectlLog logLine r child s) child) \<noteq> Live
    \<and> runningPods (processKubectlLog logLine r child s) = removeAll r (runningPods s)
    \<and> inflight (processKubectlLog logLine r child s) = inflight s
    \<and> timers (processKubectlLog logLine r child s) = timers s
    \<and> next_pid (processKubectlLog logLine r child s) = next_pid s
    \<and> childProcess (pods (processKubectlLog logLine r child s) r) = childProcess (pods s r)
    \<and> exited (processKubectlLog logLine r child s)
        = (if removeAll r (runningPods s) = [] then Some 0 else exited s)
    \<and> (\<forall>evs. r \<notin> set (runningPods (run evs (processKubectlLog logLine r child s))))
    \<and> (\<forall>evs a. spares r (run evs (processKubectlLog logLine r child s))
                   (healthCheck_cb a (run evs (processKubectlLog logLine r child s))))
    \<and> (unattended r s \<longrightarrow>
         (\<forall>evs. idle r (run evs (processKubectlLog logLine r child s))
                \<and> spares r (processKubectlLog logLine r child s)
                     (run evs (processKubectlLog logLine r child s))))"
proof -
  let ?P = "processKubectlLog logLine r child s"
  have f: "excluded (pods ?P r)" "status (procs ?P child) \<noteq> Live"
    "runningPods ?P = removeAll r (runningPods s)" "inflight ?P = inflight s"
    "timers ?P = timers s" "next_pid ?P = next_pid s"
    "childProcess (pods ?P r) = childProcess (pods s r)"
    "exited ?P = (if removeAll r (runningPods s) = [] then Some 0 else exited s)"
    using assms
    by (simp_all add: processKubectlLog_def process_exit_def cleanup_def kill_def update_pod_def
        Let_def)
  have out: "r \<notin> set (runningPods (run evs ?P))" for evs
    using run_runningPods [of evs ?P] f(3) by auto
  have rest: "idle r (run evs ?P) \<and> spares r ?P (run evs ?P)" if "unattended r s" for evs
  proof -
    have "idle r ?P"
      using that f(3,4,5) by (simp add: idle_def unattended_def)
    from run_spares [OF this] show ?thesis
      by simp
  qed
  have hc: "spares r (run evs ?P) (healthCheck_cb a (run evs ?P))" for evs a
    using out by (rule spares_healthCheck_cb)
  from f out hc rest show ?thesis
    by blast
qed

lemma getPodId_table_pair:
  "getPodId ns table_pair ''myapp'' silent = Inr (Some ''myapp-7f8c9'')"
  "getPodId ns table_pair ''db'' silent = Inr (Some ''db-0'')"
  by (simp_all add: getPodId_def filterPods_def table_pair_def table_defs rx_defs class_defs)

lemma pair_started_state:
  "pods pair_started 0 =
     \<lparr>name = ''myapp'', pod_from = ''8080'', pod_to = ''8080'', pod_namespace = None,
      pod_id = ''myapp-7f8c9'', childProcess = Some 0, initialized = False,
      restartingState = False, excluded = False, initInterval = None\<rparr>"
  "pods pair_started (Suc 0) =
     \<lparr>name = ''db'', pod_from = ''5432'', pod_to = ''5433'', pod_namespace = None,
      pod_id = ''db-0'', childProcess = Some 1, initialized = False,
      restartingState = False, excluded = False, initInterval = None\<rparr>"
  "procs pair_started 0 =
     \<lparr>owner = 0, argv = [''port-forward'', ''myapp-7f8c9'', ''8080:8080''], status = Live\<rparr>"
  "procs pair_started (Suc 0) =
     \<lparr>owner = 1, argv = [''port-forward'', ''db-0'', ''5432:5433''], status = Live\<rparr>"
  "runningPods pair_started = [0, 1]" "kubeConfig pair_started = None"
  "namespace pair_started = None" "restartAttempt pair_started = 0"
  "next_pid pair_started = 2" "timers pair_started = []" "next_timer pair_started = 0"
  "inflight pair_started = []" "next_req pair_started = 1"
  "interval pair_started = Some 5000" "exited pair_started = None"
  by (simp_all add: pair_started_def pair0_def start_def cb_defs op_defs getPodId_table_pair
        new_pod_def Let_def)

text \<open>
  For example, in the run with two pods right after start-up, where nothing is pending:
  the line excludes \<open>myapp\<close>, the run goes on with \<open>db\<close>, and a later health check leaves
  \<open>myapp\<close> alone. In the run with one pod the line ends the run with exit code 0.
\<close>

lemma address_in_use_excludes_example:
  "classify line_in_use = AddressInUse \<and> \<not> excluded (pods pair_started 0)
   \<and> unattended 0 pair_started
   \<and> runningPods (processKubectlLog line_in_use 0 0 pair_started) = [1]
   \<and> exited (processKubectlLog line_in_use 0 0 pair_started) = None
   \<and> status (procs (processKubectlLog line_in_use 0 0 pair_started) 0) \<noteq> Live
   \<and> 0 \<notin> set (runningPods (run [Interval, ExecDone 1 (ExecOk table_pair)]
                (processKubectlLog line_in_use 0 0 pair_started)))
   \<and> idle 0 (run [Interval, ExecDone 1 (ExecOk table_pair)]
                (processKubectlLog line_in_use 0 0 pair_started))
   \<and> \<not> excluded (pods started0 0)
   \<and> runningPods (processKubectlLog line_in_use 0 0 started0) = []
   \<and> exited (processKubectlLog line_in_use 0 0 started0) = Some 0"
proof -
  have h: "classify line_in_use = AddressInUse" "\<not> excluded (pods pair_started 0)"
    and u: "unattended 0 pair_started"
    by (simp_all add: classify_lines pair_started_state unattended_def)
  have k: "\<not> excluded (pods started0 0)"
    by (simp add: started0_fields)
  note T = address_in_use_excludes [OF h, of 0]
  note S = address_in_use_excludes [OF h(1) k, of 0]
  have a: "runningPods (processKubectlLog line_in_use 0 0 pair_started) = [1]"
    "exited (processKubectlLog line_in_use 0 0 pair_started) = None"
    using T by (simp_all add: pair_started_state)
  have b: "status (procs (processKubectlLog line_in_use 0 0 pair_started) 0) \<noteq> Live"
    using T by blast
  have c: "0 \<notin> set (runningPods (run [Interval, ExecDone 1 (ExecOk table_pair)]
                (processKubectlLog line_in_use 0 0 pair_started)))"
    using T by blast
  have d: "idle 0 (run [Interval, ExecDone 1 (ExecOk table_pair)]
                (processKubectlLog line_in_use 0 0 pair_started))"
    using T u by blast
  have e: "runningPods (processKubectlLog line_in_use 0 0 started0) = []"
    "exited (processKubectlLog line_in_use 0 0 started0) = Some 0"
    using S by (simp_all add: started0_fields)
  from h u k a b c d e show ?thesis
    by blast
qed

text \<open>The runs in which a reconnection attempt is pending when the line arrives.\<close>

lemma pair_dead_state:
  "pods pair_dead 0 =
     \<lparr>name = ''myapp'', pod_from = ''8080'', pod_to = ''8080'', pod_namespace = None,
      pod_id = ''myapp-7f8c9'', childProcess = Some 0, initialized = False,
      restartingState = True, excluded = False, initInterval = None\<rparr>"
  "pods pair_dead (Suc 0) =
     \<lparr>name = ''db'', pod_from = ''5432'', pod_to = ''5433'', pod_namespace = None,
      pod_id = ''db-0'', childProcess = Some 1, initialized = False,
      restartingState = True, excluded = False, initInterval = None\<rparr>"
  "procs pair_dead 0 =
     \<lparr>owner = 0, argv = [''port-forward'', ''myapp-7f8c9'', ''8080:8080''], status = Signalled\<rparr>"
  "procs pair_dead (Suc 0) =
     \<lparr>owner = 1, argv = [''port-forward'', ''db-0'', ''5432:5433''], status = Signalled\<rparr>"
  "runningPods pair_dead = [0, 1]" "kubeConfig pair_dead = None"
  "namespace pair_dead = None" "restartAttempt pair_dead = 0"
  "next_pid pair_dead = 2" "timers pair_dead = []" "next_timer pair_dead = 0"
  "inflight pair_dead = [(2, ReinitCb 0 0), (3, ReinitCb 1 0)]" "next_req pair_dead = 4"
  "interval pair_dead = Some 5000" "exited pair_dead = None"
  by (simp_all add: pair_dead_def cb_defs op_defs pair_started_state Let_def)

lemma pair_excluded_state:
  "pods pair_excluded 0 =
     \<lparr>name = ''myapp'', pod_from = ''8080'', pod_to = ''8080'', pod_namespace = None,
      pod_id = ''myapp-7f8c9'', childProcess = Some 0, initialized = False,
      restartingState = True, excluded = True, initInterval = None\<rparr>"
  "pods pair_excluded (Suc 0) = pods pair_dead (Suc 0)"
  "procs pair_excluded 0 = procs pair_dead 0"
  "procs pair_excluded (Suc 0) = procs pair_dead (Suc 0)"
  "runningPods pair_excluded = [1]" "kubeConfig pair_excluded = None"
  "namespace pair_excluded = None" "restartAttempt pair_excluded = 0"
  "next_pid pair_excluded = 2" "timers pair_excluded = []" "next_timer pair_excluded = 0"
  "inflight pair_excluded = [(2, ReinitCb 0 0), (3, ReinitCb 1 0)]" "next_req pair_excluded = 4"
  "interval pair_excluded = Some 5000" "exited pair_excluded = None"
  by (simp_all add: pair_excluded_def cb_defs op_defs pair_dead_state classify_lines Let_def)

lemma pair_respawned_state:
  "pods pair_respawned 0 =
     \<lparr>name = ''myapp'', pod_from = ''8080'', pod_to = ''8080'', pod_namespace = None,
      pod_id = ''myapp-7f8c9'', childProcess = Some 2, initialized = False,
      restartingState = True, excluded = True, initInterval = None\<rparr>"
  "pods pair_respawned (Suc 0) = pods pair_dead (Suc 0)"
  "procs pair_respawned 0 = procs pair_dead 0"
  "procs pair_respawned (Suc 0) = procs pair_dead (Suc 0)"
  "procs pair_respawned 2 =
     \<lparr>owner = 0, argv = [''port-forward'', ''myapp-7f8c9'', ''8080:8080''], status = Live\<rparr>"
  "runningPods pair_respawned = [1]" "kubeConfig pair_respawned = None"
  "namespace pair_respawned = None" "restartAttempt pair_respawned = 0"
  "next_pid pair_respawned = 3" "timers pair_respawned = []" "next_timer pair_respawned = 0"
  "inflight pair_respawned = [(3, ReinitCb 1 0)]" "next_req pair_respawned = 4"
  "interval pair_respawned = Some 5000" "exited pair_respawned = None"
  by (simp_all add: pair_respawned_def cb_defs op_defs pair_excluded_state pair_dead_state
        getPodId_table_pair Let_def)

lemma pair_ignored_state: "pair_ignored = pair_respawned"
  by (simp add: pair_ignored_def cb_defs pair_respawned_state classify_lines)

lemma pair_exit_state:
  "exited pair_exit = Some 2" "status (procs pair_exit (Suc 0)) = Signalled"
  "status (procs pair_exit 2) = Live"
  by (simp_all add: pair_exit_def pair_ignored_state step_def signal_code_def process_exit_def
        cleanup_def kill_def pair_respawned_state pair_dead_state)

lemma pair_late_state:
  "excluded (pods pair_late 0)" "childProcess (pods pair_late 0) = Some 2"
  "status (procs pair_late 0) = Signalled" "status (procs pair_late 2) = Live"
  "runningPods pair_late = [1]" "exited pair_late = None"
  by (simp_all add: pair_late_def cb_defs op_defs pair_dead_state getPodId_table_pair
        classify_lines Let_def)

text \<open>
  C7, the code at the failing input. A reconnection attempt for the session is pending
  at the moment the line arrives: the exclusion does not cancel it, and \<open>tryReinitPod\<close>
  does not look at \<open>excluded\<close>. In \<open>pair_dead\<close> an attempt is pending for \<open>myapp\<close>, which
  is not excluded and has tunnel 0. The line of tunnel 0 excludes it (\<open>pair_excluded\<close>):
  \<open>runningPods\<close> is left with \<open>db\<close>, tunnel 0 is killed, the run goes on, and the
  attempt is still pending. When it is answered (\<open>pair_respawned\<close>), a new tunnel,
  process 2, is spawned for the excluded session and becomes its \<open>childProcess\<close>. A line
  of that tunnel saying that the address is in use changes nothing, since the session is
  excluded already (\<open>pair_ignored\<close>); and when the run is ended by SIGINT
  (\<open>pair_exit\<close>), the exit handler kills the tunnel of \<open>db\<close> and leaves process 2 live.
  In \<open>pair_late\<close> the attempt is answered before the line of tunnel 0 arrives: the line
  excludes the session and signals tunnel 0 once more, and the process of the session,
  tunnel 2, stays live.
\<close>

theorem excluded_session_is_respawned:
  "inflight pair_dead = [(2, ReinitCb 0 0), (3, ReinitCb 1 0)]
   \<and> childProcess (pods pair_dead 0) = Some 0 \<and> \<not> excluded (pods pair_dead 0)
   \<and> classify line_in_use = AddressInUse
   \<and> excluded (pods pair_excluded 0) \<and> runningPods pair_excluded = [1]
   \<and> status (procs pair_excluded 0) = Signalled \<and> exited pair_excluded = None
   \<and> inflight pair_excluded = [(2, ReinitCb 0 0), (3, ReinitCb 1 0)]
   \<and> next_pid pair_excluded = 2 \<and> next_pid pair_respawned = 3
   \<and> procs pair_respawned 2 =
        \<lparr>owner = 0, argv = [''port-forward'', ''myapp-7f8c9'', ''8080:8080''], status = Live\<rparr>
   \<and> childProcess (pods pair_respawned 0) = Some 2 \<and> excluded (pods pair_respawned 0)
   \<and> runningPods pair_respawned = [1]
   \<and> pair_ignored = pair_respawned
   \<and> exited pair_exit = Some 2 \<and> status (procs pair_exit 1) = Signalled
   \<and> status (procs pair_exit 2) = Live
   \<and> excluded (pods pair_late 0) \<and> runningPods pair_late = [1]
   \<and> childProcess (pods pair_late 0) = Some 2 \<and> status (procs pair_late 2) = Live"
  by (simp add: pair_dead_state pair_excluded_state pair_respawned_state pair_ignored_state
        pair_exit_state pair_late_state classify_lines)

end
